theory Spec2Isabelle
  imports Complex_Main
begin

section \<open>PDF toolkit: page-range operations of \<open>utils/pdf_operations.py\<close>\<close>

text \<open>
  The module offers five operations on PDF files (compress, extract, merge, delete, split)
  and one helper that cuts a user string into range tokens. Page objects are opaque, so the
  model is polymorphic in the type \<open>'p\<close> of pages and a document is the list of its pages.

  Python values are modelled as follows: \<open>int\<close> is HOL's unbounded \<open>int\<close>; \<open>str\<close> is
  \<open>string\<close>, each character read as a code point below 256; an exception is a value of
  \<open>py_error\<close>; whatever the operating system, the PDF library and the external compressor
  answer is a field of the record \<open>env\<close>; what an operation does to the outside world is
  the list of its \<open>event\<close>s, in the order they happen.
\<close>

subsection \<open>Exceptions\<close>

text \<open>
  The exception classes the operations can meet. All of them derive from Python's
  \<open>Exception\<close>; \<open>FileNotFoundError\<close> is a subclass of \<open>OSError\<close>, and a handler for
  \<open>FileNotFoundError\<close> does not catch a plain \<open>OSError\<close>.
\<close>

datatype py_error =
    ValueError
  | IndexError
  | KeyError
  | ZeroDivisionError
  | FileNotFoundError
  | OSError
  | EOFError
  | PdfReadError
  | CalledProcessError

subsection \<open>Built-in string functions\<close>

type_synonym path = string

text \<open>\<open>s.split(sep)\<close> for a one-character separator: always at least one part.\<close>

fun split_on :: "char \<Rightarrow> string \<Rightarrow> string list" where
  "split_on sep [] = [[]]"
| "split_on sep (c # cs) =
     (if c = sep then [] # split_on sep cs
      else (case split_on sep cs of
              [] \<Rightarrow> [[c]]
            | p # ps \<Rightarrow> (c # p) # ps))"

text \<open>\<open>str.isspace\<close> on one character, for code points below 256.\<close>

definition is_space :: "char \<Rightarrow> bool" where
  "is_space c =
     (let n = (of_char c :: nat)
      in (9 \<le> n \<and> n \<le> 13) \<or> (28 \<le> n \<and> n \<le> 32) \<or> n = 133 \<or> n = 160)"

text \<open>\<open>s.strip()\<close>: whitespace removed at both ends.\<close>

definition strip :: "string \<Rightarrow> string" where
  "strip s = rev (dropWhile is_space (rev (dropWhile is_space s)))"

text \<open>
  \<open>int(s)\<close> in base ten. The interpreter skips whitespace at both ends (the ASCII
  whitespace \<open>\t \n \v \f \r\<close> and space, and the two non-ASCII spaces below 256), reads
  an optional sign, then digits in which single underscores may stand between two digits.
  Anything else raises \<open>ValueError\<close>. The interpreter's configurable limit on the number
  of digits is not part of the model.
\<close>

definition int_space :: "char \<Rightarrow> bool" where
  "int_space c =
     (let n = (of_char c :: nat)
      in (9 \<le> n \<and> n \<le> 13) \<or> n = 32 \<or> n = 133 \<or> n = 160)"

definition is_digit :: "char \<Rightarrow> bool" where
  "is_digit c = (let n = (of_char c :: nat) in 48 \<le> n \<and> n \<le> 57)"

definition digit_value :: "char \<Rightarrow> int" where
  "digit_value c = int (of_char c) - 48"

fun long_digits :: "char \<Rightarrow> int \<Rightarrow> string \<Rightarrow> py_error + int" where
  "long_digits prev acc [] = (if prev = CHR ''_'' then Inl ValueError else Inr acc)"
| "long_digits prev acc (c # cs) =
     (if c = CHR ''_'' then
        (if prev = CHR ''_'' then Inl ValueError else long_digits c acc cs)
      else if is_digit c then long_digits c (10 * acc + digit_value c) cs
      else Inl ValueError)"

definition unsigned_int :: "string \<Rightarrow> py_error + int" where
  "unsigned_int s =
     (case s of
        [] \<Rightarrow> Inl ValueError
      | c # cs \<Rightarrow> if c = CHR ''_'' then Inl ValueError else long_digits (CHR 0x00) 0 s)"

definition py_int :: "string \<Rightarrow> py_error + int" where
  "py_int s =
     (case rev (dropWhile int_space (rev (dropWhile int_space s))) of
        [] \<Rightarrow> Inl ValueError
      | c # cs \<Rightarrow>
          if c = CHR ''+'' then unsigned_int cs
          else if c = CHR ''-'' then map_sum id uminus (unsigned_int cs)
          else unsigned_int (c # cs))"

text \<open>\<open>str(n)\<close> of an integer, as an f-string renders it.\<close>

fun digits_of :: "nat \<Rightarrow> string" where
  "digits_of n =
     (if n < 10 then [''0123456789'' ! n]
      else digits_of (n div 10) @ [''0123456789'' ! (n mod 10)])"

declare digits_of.simps [simp del]

definition str_int :: "int \<Rightarrow> string" where
  "str_int i = (if i < 0 then CHR ''-'' # digits_of (nat (- i)) else digits_of (nat i))"

text \<open>\<open>range(a, b)\<close> over integers, as the list it iterates.\<close>

definition py_range :: "int \<Rightarrow> int \<Rightarrow> int list" where
  "py_range a b = [a..b - 1]"

text \<open>
  \<open>xs[i]\<close> on a Python sequence, as the page list of the PDF library implements it: a
  negative index counts from the end, an index out of range raises \<open>IndexError\<close>.
\<close>

definition getitem :: "'a list \<Rightarrow> int \<Rightarrow> py_error + 'a" where
  "getitem xs index =
     (let len_self = int (length xs);
          position = (if index < 0 then len_self + index else index)
      in if position < 0 \<or> len_self \<le> position
         then Inl IndexError
         else Inr (xs ! nat position))"

subsection \<open>Path functions (POSIX flavour of \<open>os.path\<close>)\<close>

definition basename :: "path \<Rightarrow> path" where
  "basename p = rev (takeWhile (\<lambda>c. c \<noteq> CHR ''/'') (rev p))"

definition dirname :: "path \<Rightarrow> path" where
  "dirname p =
     (let head = rev (dropWhile (\<lambda>c. c \<noteq> CHR ''/'') (rev p))
      in if head \<noteq> [] \<and> (\<exists>c \<in> set head. c \<noteq> CHR ''/'')
         then rev (dropWhile (\<lambda>c. c = CHR ''/'') (rev head))
         else head)"

text \<open>
  \<open>os.path.splitext(p)[0]\<close>: the part before the last dot of the last path component,
  unless that component has only dots before it.
\<close>

definition splitext_root :: "path \<Rightarrow> path" where
  "splitext_root p =
     (let name = basename p;
          ext = rev (takeWhile (\<lambda>c. c \<noteq> CHR ''.'') (rev name));
          stem = take (length name - length ext - 1) name
      in if CHR ''.'' \<in> set name \<and> (\<exists>c \<in> set stem. c \<noteq> CHR ''.'')
         then take (length p - length ext - 1) p
         else p)"

definition path_join :: "path \<Rightarrow> path \<Rightarrow> path" where
  "path_join a b =
     (if b \<noteq> [] \<and> hd b = CHR ''/'' then b
      else if a = [] \<or> last a = CHR ''/'' then a @ b
      else a @ ''/'' @ b)"

subsection \<open>The outside world\<close>

text \<open>
  What lies at a path when an operation starts: a PDF document, given by its pages in
  order, or something that exists but that the PDF library refuses with an exception (a
  directory, a damaged file).
\<close>

datatype 'p node = Pdf "'p list" | Unreadable py_error

text \<open>
  The answers of everything that is not code of the module:
  \<^item> \<open>files\<close>: the file system when the operation starts;
  \<^item> \<open>open_wb\<close>: the exception, if any, of writing a whole document to a path
    (\<open>open(path, 'wb')\<close> followed by \<open>writer.write\<close>);
  \<^item> \<open>mkdirs\<close>: the exception, if any, of \<open>os.makedirs(path, exist_ok=True)\<close> on a
    non-empty path;
  \<^item> \<open>stdin\<close>: the line \<open>input()\<close> returns, or the exception it raises;
  \<^item> \<open>gs\<close>: the external compressor started with a command line: the exception of
    starting it, or the sizes in bytes of the files that exist once it has exited.
\<close>

record 'p env =
  files :: "path \<rightharpoonup> 'p node"
  open_wb :: "path \<Rightarrow> py_error option"
  mkdirs :: "path \<Rightarrow> py_error option"
  stdin :: "py_error + string"
  gs :: "string list \<Rightarrow> py_error + (path \<rightharpoonup> nat)"

text \<open>
  The lines the module prints, one constructor per \<open>print\<close> of the source, carrying the
  values the source formats into the line:
  \<^item> \<open>InvalidLevel\<close>: "Invalid compression level. Using default (3 - ebook)";
  \<^item> \<open>Compressing\<close>: "Compressing PDF (this may take a while for large files)...";
  \<^item> \<open>CompressSuccess a b\<close>: "Success: File compressed from ... KB to ... KB", for the
    sizes \<open>a\<close> and \<open>b\<close> in bytes (the source prints them divided by 1024, as floats);
  \<^item> \<open>CompressionFailed e\<close>: "Compression failed: e"; \<open>ErrorText e\<close>: the text of \<open>e\<close>
    alone; \<open>UnexpectedError e\<close>: "Unexpected error: e";
  \<^item> \<open>PageMissing n\<close>: "Warning: Page n does not exist - skipping";
  \<^item> \<open>FileMissing f\<close>: "Warning: File f not found - skipping";
  \<^item> \<open>Error e\<close>: "Error: e";
  \<^item> \<open>ExtractSuccess\<close>, \<open>MergeSuccess\<close>, \<open>DeleteSuccess\<close>: the "Success: ..." line of the
    operation, with the output path;
  \<^item> \<open>AskDirectory\<close>: the prompt of \<open>input\<close> in split;
  \<^item> \<open>SplitSuccess n d b\<close>: the three closing lines of split, with the number of parts,
    the directory and the base name.
  The progress bar is display only and is not modelled; where the source computes its
  total with an expression that can raise, the model computes it too.
\<close>

datatype msg =
    InvalidLevel
  | Compressing
  | CompressSuccess nat nat
  | CompressionFailed py_error
  | ErrorText py_error
  | UnexpectedError py_error
  | PageMissing int
  | FileMissing path
  | Error py_error
  | ExtractSuccess path
  | MergeSuccess path
  | DeleteSuccess path
  | AskDirectory
  | SplitSuccess int path string

datatype 'p event =
    Print msg
  | Write path "'p list"
  | Makedirs path
  | Spawn "string list"

text \<open>
  An operation yields its events and the exception that leaves it, if any: \<open>None\<close> is a
  normal return (every operation returns Python's \<open>None\<close>).
\<close>

type_synonym 'p outcome = "'p event list \<times> py_error option"

definition path_exists :: "'p env \<Rightarrow> path \<Rightarrow> bool" where
  "path_exists env p = (files env p \<noteq> None)"

definition PdfReader :: "'p env \<Rightarrow> path \<Rightarrow> py_error + 'p list" where
  "PdfReader env p =
     (case files env p of
        None \<Rightarrow> Inl FileNotFoundError
      | Some (Pdf pages) \<Rightarrow> Inr pages
      | Some (Unreadable e) \<Rightarrow> Inl e)"

definition write_pdf :: "'p env \<Rightarrow> path \<Rightarrow> 'p list \<Rightarrow> py_error + 'p event" where
  "write_pdf env p writer =
     (case open_wb env p of Some e \<Rightarrow> Inl e | None \<Rightarrow> Inr (Write p writer))"

definition makedirs :: "'p env \<Rightarrow> path \<Rightarrow> py_error option" where
  "makedirs env d = (if d = [] then Some FileNotFoundError else mkdirs env d)"

subsection \<open>\<open>parse_page_ranges\<close> and the decoding of a token\<close>

definition parse_page_ranges :: "string \<Rightarrow> string list" where
  "parse_page_ranges input_str = map strip (split_on (CHR '','') input_str)"

text \<open>
  \<open>start, end = map(int, page_range.split('-'))\<close>, the statement with which extract and
  delete decode a token: unpacking raises \<open>ValueError\<close> unless there are exactly two
  parts, and \<open>int\<close> raises \<open>ValueError\<close> on a part that is not an integer.
\<close>

definition start_end :: "string \<Rightarrow> py_error + int \<times> int" where
  "start_end page_range =
     (case split_on (CHR ''-'') page_range of
        [a, b] \<Rightarrow>
          (case py_int a of
             Inl e \<Rightarrow> Inl e
           | Inr start \<Rightarrow>
               (case py_int b of Inl e \<Rightarrow> Inl e | Inr end \<Rightarrow> Inr (start, end)))
      | _ \<Rightarrow> Inl ValueError)"

subsection \<open>\<open>extract_pages\<close>\<close>

text \<open>
  The total of the progress bar,
  \<open>sum(end - start + 1 for r in page_ranges for start, end in [map(int, r.split('-'))])\<close>:
  it decodes every token before any page is copied, so a malformed token raises here.
\<close>

fun range_total :: "string list \<Rightarrow> py_error + int" where
  "range_total [] = Inr 0"
| "range_total (r # rs) =
     (case start_end r of
        Inl e \<Rightarrow> Inl e
      | Inr (start, end) \<Rightarrow>
          (case range_total rs of
             Inl e \<Rightarrow> Inl e
           | Inr others \<Rightarrow> Inr (end - start + 1 + others)))"

text \<open>
  The inner loop \<open>for page_num in range(start - 1, end)\<close>, over the remaining page
  numbers, with the pages added to the writer so far.
\<close>

fun extract_range ::
  "'p list \<Rightarrow> int list \<Rightarrow> 'p list \<Rightarrow> 'p event list \<times> (py_error + 'p list)" where
  "extract_range pages [] writer = ([], Inr writer)"
| "extract_range pages (page_num # rest) writer =
     (if page_num < int (length pages) then
        (case getitem pages page_num of
           Inl e \<Rightarrow> ([], Inl e)
         | Inr page \<Rightarrow> extract_range pages rest (writer @ [page]))
      else
        (case extract_range pages rest writer of
           (evs, r) \<Rightarrow> (Print (PageMissing (page_num + 1)) # evs, r)))"

text \<open>The outer loop \<open>for page_range in page_ranges\<close>.\<close>

fun extract_ranges ::
  "'p list \<Rightarrow> string list \<Rightarrow> 'p list \<Rightarrow> 'p event list \<times> (py_error + 'p list)" where
  "extract_ranges pages [] writer = ([], Inr writer)"
| "extract_ranges pages (page_range # rest) writer =
     (case start_end page_range of
        Inl e \<Rightarrow> ([], Inl e)
      | Inr (start, end) \<Rightarrow>
          (case extract_range pages (py_range (start - 1) end) writer of
             (evs, Inl e) \<Rightarrow> (evs, Inl e)
           | (evs, Inr writer') \<Rightarrow>
               (case extract_ranges pages rest writer' of
                  (evs', r) \<Rightarrow> (evs @ evs', r))))"

text \<open>The body of the \<open>try\<close> block.\<close>

definition extract_body :: "'p env \<Rightarrow> path \<Rightarrow> path \<Rightarrow> string list \<Rightarrow> 'p outcome" where
  "extract_body env input_pdf output_pdf page_ranges =
     (case PdfReader env input_pdf of
        Inl e \<Rightarrow> ([], Some e)
      | Inr pages \<Rightarrow>
          (case range_total page_ranges of
             Inl e \<Rightarrow> ([], Some e)
           | Inr total_pages \<Rightarrow>
               (case extract_ranges pages page_ranges [] of
                  (evs, Inl e) \<Rightarrow> (evs, Some e)
                | (evs, Inr writer) \<Rightarrow>
                    (case write_pdf env output_pdf writer of
                       Inl e \<Rightarrow> (evs, Some e)
                     | Inr w \<Rightarrow> (evs @ [w, Print (ExtractSuccess output_pdf)], None)))))"

text \<open>
  \<open>except Exception as e: print(f"Error: {e}")\<close>, the handler that closes extract, merge,
  delete and split: every class of \<open>py_error\<close> derives from \<open>Exception\<close>, so it catches
  whatever the body raises.
\<close>

definition except_Exception :: "'p outcome \<Rightarrow> 'p outcome" where
  "except_Exception r =
     (case r of
        (evs, None) \<Rightarrow> (evs, None)
      | (evs, Some e) \<Rightarrow> (evs @ [Print (Error e)], None))"

definition extract_pages :: "'p env \<Rightarrow> path \<Rightarrow> path \<Rightarrow> string list \<Rightarrow> 'p outcome" where
  "extract_pages env input_pdf output_pdf page_ranges =
     except_Exception (extract_body env input_pdf output_pdf page_ranges)"

subsection \<open>\<open>merge_pdfs\<close>\<close>

text \<open>The first pass, which counts the pages of the files that exist.\<close>

fun count_pages :: "'p env \<Rightarrow> path list \<Rightarrow> int \<Rightarrow> py_error + int" where
  "count_pages env [] total_pages = Inr total_pages"
| "count_pages env (file # rest) total_pages =
     (if path_exists env file then
        (case PdfReader env file of
           Inl e \<Rightarrow> Inl e
         | Inr pages \<Rightarrow> count_pages env rest (total_pages + int (length pages)))
      else count_pages env rest total_pages)"

text \<open>\<open>for page in reader.pages: writer.add_page(page)\<close>.\<close>

fun add_all :: "'p list \<Rightarrow> 'p list \<Rightarrow> 'p list" where
  "add_all [] writer = writer"
| "add_all (page # rest) writer = add_all rest (writer @ [page])"

text \<open>The second pass, \<open>for file in input_files\<close>.\<close>

fun merge_files ::
  "'p env \<Rightarrow> path list \<Rightarrow> 'p list \<Rightarrow> 'p event list \<times> (py_error + 'p list)" where
  "merge_files env [] writer = ([], Inr writer)"
| "merge_files env (file # rest) writer =
     (if \<not> path_exists env file then
        (case merge_files env rest writer of
           (evs, r) \<Rightarrow> (Print (FileMissing file) # evs, r))
      else
        (case PdfReader env file of
           Inl e \<Rightarrow> ([], Inl e)
         | Inr pages \<Rightarrow> merge_files env rest (add_all pages writer)))"

definition merge_body :: "'p env \<Rightarrow> path list \<Rightarrow> path \<Rightarrow> 'p outcome" where
  "merge_body env input_files output_pdf =
     (case count_pages env input_files 0 of
        Inl e \<Rightarrow> ([], Some e)
      | Inr total_pages \<Rightarrow>
          (case merge_files env input_files [] of
             (evs, Inl e) \<Rightarrow> (evs, Some e)
           | (evs, Inr writer) \<Rightarrow>
               (case write_pdf env output_pdf writer of
                  Inl e \<Rightarrow> (evs, Some e)
                | Inr w \<Rightarrow> (evs @ [w, Print (MergeSuccess output_pdf)], None))))"

definition merge_pdfs :: "'p env \<Rightarrow> path list \<Rightarrow> path \<Rightarrow> 'p outcome" where
  "merge_pdfs env input_files output_pdf =
     except_Exception (merge_body env input_files output_pdf)"

subsection \<open>\<open>delete_pages\<close>\<close>

text \<open>The loop that fills \<open>pages_to_exclude\<close>.\<close>

fun exclude_ranges :: "string list \<Rightarrow> int set \<Rightarrow> py_error + int set" where
  "exclude_ranges [] pages_to_exclude = Inr pages_to_exclude"
| "exclude_ranges (page_range # rest) pages_to_exclude =
     (case start_end page_range of
        Inl e \<Rightarrow> Inl e
      | Inr (start, end) \<Rightarrow>
          exclude_ranges rest (pages_to_exclude \<union> set (py_range (start - 1) end)))"

text \<open>The loop \<open>for page_num in range(total_pages)\<close>.\<close>

fun keep_pages :: "'p list \<Rightarrow> int set \<Rightarrow> int list \<Rightarrow> 'p list \<Rightarrow> py_error + 'p list" where
  "keep_pages pages pages_to_exclude [] writer = Inr writer"
| "keep_pages pages pages_to_exclude (page_num # rest) writer =
     (if page_num \<notin> pages_to_exclude then
        (case getitem pages page_num of
           Inl e \<Rightarrow> Inl e
         | Inr page \<Rightarrow> keep_pages pages pages_to_exclude rest (writer @ [page]))
      else keep_pages pages pages_to_exclude rest writer)"

definition delete_body :: "'p env \<Rightarrow> path \<Rightarrow> path \<Rightarrow> string list \<Rightarrow> 'p outcome" where
  "delete_body env input_pdf output_pdf page_ranges_to_delete =
     (case PdfReader env input_pdf of
        Inl e \<Rightarrow> ([], Some e)
      | Inr pages \<Rightarrow>
          (let total_pages = int (length pages) in
           case exclude_ranges page_ranges_to_delete {} of
             Inl e \<Rightarrow> ([], Some e)
           | Inr pages_to_exclude \<Rightarrow>
               (case keep_pages pages pages_to_exclude (py_range 0 total_pages) [] of
                  Inl e \<Rightarrow> ([], Some e)
                | Inr writer \<Rightarrow>
                    (case write_pdf env output_pdf writer of
                       Inl e \<Rightarrow> ([], Some e)
                     | Inr w \<Rightarrow> ([w, Print (DeleteSuccess output_pdf)], None)))))"

definition delete_pages :: "'p env \<Rightarrow> path \<Rightarrow> path \<Rightarrow> string list \<Rightarrow> 'p outcome" where
  "delete_pages env input_pdf output_pdf page_ranges_to_delete =
     except_Exception (delete_body env input_pdf output_pdf page_ranges_to_delete)"

subsection \<open>\<open>split_pdf\<close>\<close>

text \<open>\<open>for page_num in range(start_page, end_page): writer.add_page(reader.pages[page_num])\<close>.\<close>

fun add_pages :: "'p list \<Rightarrow> int list \<Rightarrow> 'p list \<Rightarrow> py_error + 'p list" where
  "add_pages pages [] writer = Inr writer"
| "add_pages pages (page_num # rest) writer =
     (case getitem pages page_num of
        Inl e \<Rightarrow> Inl e
      | Inr page \<Rightarrow> add_pages pages rest (writer @ [page]))"

text \<open>The name of a part, \<open>os.path.join(output_dir, f"{base_name}_part{part_num + 1}.pdf")\<close>.\<close>

definition part_path :: "path \<Rightarrow> string \<Rightarrow> int \<Rightarrow> path" where
  "part_path output_dir base_name part_num =
     path_join output_dir (base_name @ ''_part'' @ str_int (part_num + 1) @ ''.pdf'')"

text \<open>The loop \<open>for part_num in range(num_parts)\<close>, over the remaining part numbers.\<close>

fun split_parts ::
  "'p env \<Rightarrow> 'p list \<Rightarrow> int \<Rightarrow> int \<Rightarrow> path \<Rightarrow> string \<Rightarrow> int list \<Rightarrow> 'p outcome" where
  "split_parts env pages pages_per_part total_pages output_dir base_name [] = ([], None)"
| "split_parts env pages pages_per_part total_pages output_dir base_name (part_num # rest) =
     (let start_page = part_num * pages_per_part;
          end_page = min ((part_num + 1) * pages_per_part) total_pages
      in case add_pages pages (py_range start_page end_page) [] of
           Inl e \<Rightarrow> ([], Some e)
         | Inr writer \<Rightarrow>
             (case write_pdf env (part_path output_dir base_name part_num) writer of
                Inl e \<Rightarrow> ([], Some e)
              | Inr w \<Rightarrow>
                  (case split_parts env pages pages_per_part total_pages
                          output_dir base_name rest of
                     (evs, r) \<Rightarrow> (w # evs, r))))"

text \<open>
  The body of the \<open>try\<close> block. Python's \<open>//\<close> is the floor division that \<open>div\<close> is on
  \<open>int\<close>, except that a zero divisor raises.
\<close>

definition split_body :: "'p env \<Rightarrow> path \<Rightarrow> int \<Rightarrow> 'p outcome" where
  "split_body env input_pdf pages_per_part =
     (case PdfReader env input_pdf of
        Inl e \<Rightarrow> ([], Some e)
      | Inr pages \<Rightarrow>
          (let total_pages = int (length pages) in
           if pages_per_part = 0 then ([], Some ZeroDivisionError)
           else
             (let num_parts = (total_pages + pages_per_part - 1) div pages_per_part;
                  base_name = splitext_root (basename input_pdf)
              in case stdin env of
                   Inl e \<Rightarrow> ([Print AskDirectory], Some e)
                 | Inr line \<Rightarrow>
                     (let answer = strip line;
                          output_dir = (if answer = [] then dirname input_pdf else answer)
                      in case makedirs env output_dir of
                           Some e \<Rightarrow> ([Print AskDirectory], Some e)
                         | None \<Rightarrow>
                             (case split_parts env pages pages_per_part total_pages
                                     output_dir base_name (py_range 0 num_parts) of
                                (evs, Some e) \<Rightarrow>
                                  (Print AskDirectory # Makedirs output_dir # evs, Some e)
                              | (evs, None) \<Rightarrow>
                                  (Print AskDirectory # Makedirs output_dir # evs
                                     @ [Print (SplitSuccess num_parts output_dir base_name)],
                                   None))))))"

definition split_pdf :: "'p env \<Rightarrow> path \<Rightarrow> int \<Rightarrow> 'p outcome" where
  "split_pdf env input_pdf pages_per_part =
     except_Exception (split_body env input_pdf pages_per_part)"

subsection \<open>\<open>compress_pdf\<close>\<close>

definition quality_map :: "int \<rightharpoonup> string" where
  "quality_map =
     [1 \<mapsto> ''/prepress'', 2 \<mapsto> ''/printer'', 3 \<mapsto> ''/ebook'', 4 \<mapsto> ''/screen'',
      5 \<mapsto> ''/ebook'']"

text \<open>The command line as first built, before the level-5 insertion.\<close>

definition gs_cmd :: "string \<Rightarrow> path \<Rightarrow> path \<Rightarrow> string list" where
  "gs_cmd quality input_pdf output_pdf =
     [''gs'',
      ''-sDEVICE=pdfwrite'',
      ''-dCompatibilityLevel=1.5'',
      ''-dPDFSETTINGS='' @ quality,
      ''-dNOPAUSE'',
      ''-dQUIET'',
      ''-dBATCH'',
      ''-dAutoRotatePages=/None'',
      ''-sOutputFile='' @ output_pdf,
      input_pdf]"

definition custom_flags :: "string list" where
  "custom_flags =
     [''-dDetectDuplicateImages=true'',
      ''-dColorImageResolution=150'',
      ''-dGrayImageResolution=150'',
      ''-dMonoImageResolution=150'',
      ''-dDownsampleColorImages=true'',
      ''-dDownsampleGrayImages=true'',
      ''-dDownsampleMonoImages=true'']"

text \<open>The command line that is run; \<open>gs_cmd[3:3] = [...]\<close> inserts before index 3.\<close>

definition command_line :: "int \<Rightarrow> string \<Rightarrow> path \<Rightarrow> path \<Rightarrow> string list" where
  "command_line level quality input_pdf output_pdf =
     (let c = gs_cmd quality input_pdf output_pdf
      in if level = 5 then take 3 c @ custom_flags @ drop 3 c else c)"

text \<open>
  The body of the \<open>try\<close> block. After the compressor has exited, the sizes are read from
  the file system it leaves; the reduction divides by the original size, and Python's float
  division raises on zero.
\<close>

definition compress_body :: "'p env \<Rightarrow> path \<Rightarrow> path \<Rightarrow> int \<Rightarrow> string \<Rightarrow> 'p outcome" where
  "compress_body env input_pdf output_pdf level quality =
     (if \<not> path_exists env input_pdf then ([], Some FileNotFoundError)
      else
        (let cmd = command_line level quality input_pdf output_pdf
         in case gs env cmd of
              Inl e \<Rightarrow> ([Print Compressing], Some e)
            | Inr after \<Rightarrow>
                (case after output_pdf of
                   None \<Rightarrow> ([Print Compressing, Spawn cmd], Some FileNotFoundError)
                 | Some new_size \<Rightarrow>
                     (case after input_pdf of
                        None \<Rightarrow> ([Print Compressing, Spawn cmd], Some FileNotFoundError)
                      | Some original_size \<Rightarrow>
                          if original_size = 0
                          then ([Print Compressing, Spawn cmd], Some ZeroDivisionError)
                          else ([Print Compressing, Spawn cmd,
                                 Print (CompressSuccess original_size new_size)], None)))))"

text \<open>The three handlers of compress, tried in the order of the source.\<close>

definition compress_handlers :: "'p outcome \<Rightarrow> 'p outcome" where
  "compress_handlers r =
     (case r of
        (evs, None) \<Rightarrow> (evs, None)
      | (evs, Some e) \<Rightarrow>
          if e = CalledProcessError then (evs @ [Print (CompressionFailed e)], None)
          else if e = FileNotFoundError then (evs @ [Print (ErrorText e)], None)
          else (evs @ [Print (UnexpectedError e)], None))"

text \<open>
  The whole function: \<open>power_arg\<close> is the argument \<open>power\<close>, and \<open>level\<close> the value of
  that variable once the check has replaced an invalid one by 3. The check and the lookup
  \<open>quality_map[power]\<close> stand before the \<open>try\<close>: a \<open>KeyError\<close> of the lookup would
  leave the function.
\<close>

definition compress_pdf :: "'p env \<Rightarrow> path \<Rightarrow> path \<Rightarrow> int \<Rightarrow> 'p outcome" where
  "compress_pdf env input_pdf output_pdf power_arg =
     (let invalid = (quality_map power_arg = None);
          level = (if invalid then 3 else power_arg);
          warning = (if invalid then [Print InvalidLevel] else [])
      in case quality_map level of
           None \<Rightarrow> (warning, Some KeyError)
         | Some quality \<Rightarrow>
             (case compress_handlers (compress_body env input_pdf output_pdf level quality) of
                (evs, r) \<Rightarrow> (warning @ evs, r)))"

subsection \<open>Notions used to state the properties\<close>

text \<open>
  A token "can be split into exactly two integer parts": cutting it at \<open>-\<close> gives two
  parts and \<open>int\<close> accepts both.
\<close>

definition two_integer_parts :: "string \<Rightarrow> bool" where
  "two_integer_parts t =
     (case split_on (CHR ''-'') t of
        [a, b] \<Rightarrow> isl (py_int a) = False \<and> isl (py_int b) = False
      | _ \<Rightarrow> False)"

text \<open>
  For a range \<open>(start, end)\<close> of 1-indexed page numbers: the pages of the document whose
  number lies in \<open>start..end\<close>, in page order, and the numbers in \<open>start..end\<close> beyond
  the length of the document.
\<close>

definition existing_pages :: "'p list \<Rightarrow> int \<times> int \<Rightarrow> 'p list" where
  "existing_pages doc r =
     map (\<lambda>k. doc ! (nat k - 1))
       (filter (\<lambda>k. 1 \<le> k \<and> k \<le> int (length doc)) [fst r..snd r])"

definition missing_pages :: "'p list \<Rightarrow> int \<times> int \<Rightarrow> int list" where
  "missing_pages doc r = filter (\<lambda>k. int (length doc) < k) [fst r..snd r]"

text \<open>The 0-indexed page number \<open>k\<close> lies in the range \<open>(start, end)\<close> of 1-indexed numbers.\<close>

definition in_range :: "nat \<Rightarrow> int \<times> int \<Rightarrow> bool" where
  "in_range k r = (fst r \<le> int k + 1 \<and> int k + 1 \<le> snd r)"



text \<open>\<open>','.join(pieces)\<close>, the string whose comma-separated pieces are \<open>pieces\<close>.\<close>

fun join_commas :: "string list \<Rightarrow> string" where
  "join_commas [] = []"
| "join_commas [p] = p"
| "join_commas (p # q # ps) = p @ CHR '','' # join_commas (q # ps)"

text \<open>
  The token \<open>t\<close> is the piece \<open>p\<close> stripped: \<open>p\<close> is \<open>t\<close> between two runs of whitespace,
  and \<open>t\<close> neither starts nor ends with whitespace.
\<close>

definition stripped_from :: "string \<Rightarrow> string \<Rightarrow> bool" where
  "stripped_from t p =
     (\<exists>l r. p = l @ t @ r \<and> list_all is_space l \<and> list_all is_space r
        \<and> (t = [] \<or> (\<not> is_space (hd t) \<and> \<not> is_space (last t))))"



text \<open>The pages of the document at a path, none if there is no document there.\<close>

definition pages_at :: "'p env \<Rightarrow> path \<Rightarrow> 'p list" where
  "pages_at env f = (case files env f of Some (Pdf pages) \<Rightarrow> pages | _ \<Rightarrow> [])"

definition is_pdf :: "'p env \<Rightarrow> path \<Rightarrow> bool" where
  "is_pdf env f = (case files env f of Some (Pdf pages) \<Rightarrow> True | _ \<Rightarrow> False)"

text \<open>
  The command line the interface description gives for a level from 1 to 5: the preset of
  the level, and for level 5 the duplicate-image detection and the 150 DPI downsampling
  flags inserted before the preset flag.
\<close>

definition preset :: "int \<Rightarrow> string" where
  "preset level =
     (if level = 1 then ''prepress''
      else if level = 2 then ''printer''
      else if level = 3 then ''ebook''
      else if level = 4 then ''screen''
      else ''ebook'')"

definition expected_command :: "int \<Rightarrow> path \<Rightarrow> path \<Rightarrow> string list" where
  "expected_command level input_pdf output_pdf =
     [''gs'', ''-sDEVICE=pdfwrite'', ''-dCompatibilityLevel=1.5'']
     @ (if level = 5
        then [''-dDetectDuplicateImages=true'',
              ''-dColorImageResolution=150'',
              ''-dGrayImageResolution=150'',
              ''-dMonoImageResolution=150'',
              ''-dDownsampleColorImages=true'',
              ''-dDownsampleGrayImages=true'',
              ''-dDownsampleMonoImages=true'']
        else [])
     @ [''-dPDFSETTINGS=/'' @ preset level,
        ''-dNOPAUSE'', ''-dQUIET'', ''-dBATCH'', ''-dAutoRotatePages=/None'',
        ''-sOutputFile='' @ output_pdf, input_pdf]"




subsection \<open>A sample world\<close>

text \<open>
  A small file system with pages numbered by content, in which every write and every
  directory creation succeeds, the user leaves the directory prompt empty, and the
  compressor leaves a 1024-byte output next to the 2048-byte \<open>a.pdf\<close>.
\<close>

definition sample_env :: "nat env" where
  "sample_env =
     \<lparr>files = [''a.pdf'' \<mapsto> Pdf [1, 2, 3],
               ''b.pdf'' \<mapsto> Pdf [4, 5],
               ''/docs/ten.v2.pdf'' \<mapsto> Pdf [1, 2, 3, 4, 5, 6, 7, 8, 9, 10],
               ''/docs'' \<mapsto> Unreadable OSError],
      open_wb = (\<lambda>p. None),
      mkdirs = (\<lambda>p. None),
      stdin = Inr [],
      gs = (\<lambda>cmd. Inr [''a.pdf'' \<mapsto> 2048, ''small.pdf'' \<mapsto> 1024])\<rparr>"

section \<open>Properties\<close>

subsection \<open>Ranges and indexing\<close>

lemma py_range_int: "py_range (int a) (int b) = map int [a..<b]"
proof (induction b)
  case 0
  show ?case by (simp add: py_range_def)
next
  case (Suc b)
  show ?case
  proof (cases "a \<le> b")
    case True
    then have "[int a..int b] = [int a..int b - 1] @ [int b]"
      by (simp add: upto_rec2)
    with Suc True show ?thesis by (simp add: py_range_def)
  next
    case False
    then show ?thesis by (simp add: py_range_def)
  qed
qed

lemma py_range_empty: "b \<le> a \<Longrightarrow> py_range a b = []"
  by (simp add: py_range_def)

lemma py_range_nat: "0 \<le> a \<Longrightarrow> py_range a b = map int [nat a..<nat b]"
proof (cases "0 \<le> b")
  case True
  assume "0 \<le> a"
  with True py_range_int[of "nat a" "nat b"] show ?thesis by simp
next
  case False
  assume "0 \<le> a"
  with False show ?thesis by (simp add: py_range_def)
qed

lemma getitem_nat: "k < length xs \<Longrightarrow> getitem xs (int k) = Inr (xs ! k)"
  by (simp add: getitem_def)

lemma upto_shift: "0 \<le> a \<Longrightarrow> [a + 1..b] = map (\<lambda>k. int k + 1) [nat a..<nat b]"
proof -
  assume a: "0 \<le> a"
  show ?thesis
  proof (cases "0 \<le> b")
    case True
    have "[a + 1..b] = py_range (int (Suc (nat a))) (int (Suc (nat b)))"
      using a True by (simp add: py_range_def add.commute)
    also have "\<dots> = map int [Suc (nat a)..<Suc (nat b)]" by (rule py_range_int)
    also have "\<dots> = map int (map Suc [nat a..<nat b])" by (simp only: map_Suc_upt)
    finally show ?thesis by (simp add: comp_def)
  next
    case False
    with a show ?thesis by simp
  qed
qed

subsection \<open>The loops of extract, for ranges from page one on\<close>

lemma extract_range_nat:
  "extract_range pages (map int ks) writer =
     (map (\<lambda>k. Print (PageMissing (int k + 1))) (filter (\<lambda>k. \<not> k < length pages) ks),
      Inr (writer @ map (\<lambda>k. pages ! k) (filter (\<lambda>k. k < length pages) ks)))"
  by (induction ks arbitrary: writer) (simp_all add: getitem_nat)

lemma missing_pages_nat:
  assumes "1 \<le> s"
  shows "missing_pages pages (s, e) =
      map (\<lambda>k. int k + 1) (filter (\<lambda>k. \<not> k < length pages) [nat (s - 1)..<nat e])"
proof -
  have u: "[s..e] = map (\<lambda>k. int k + 1) [nat (s - 1)..<nat e]"
    using upto_shift[of "s - 1" e] assms by simp
  show ?thesis
    unfolding missing_pages_def u fst_conv snd_conv filter_map
    by (rule arg_cong[where f="map _"], rule filter_cong) auto
qed

lemma existing_pages_nat:
  assumes "1 \<le> s"
  shows "existing_pages pages (s, e) =
      map (\<lambda>k. pages ! k) (filter (\<lambda>k. k < length pages) [nat (s - 1)..<nat e])"
proof -
  have u: "[s..e] = map (\<lambda>k. int k + 1) [nat (s - 1)..<nat e]"
    using upto_shift[of "s - 1" e] assms by simp
  show ?thesis
    unfolding existing_pages_def u fst_conv snd_conv filter_map map_map
  proof (rule arg_cong2[where f=map])
    have "\<And>x. nat (int x + 1) - Suc 0 = x" by (simp add: nat_add_distrib)
    then show "(\<lambda>k. pages ! (nat k - 1)) \<circ> (\<lambda>k. int k + 1) = (\<lambda>k. pages ! k)"
      by (simp add: comp_def)
    show "filter ((\<lambda>k. 1 \<le> k \<and> k \<le> int (length pages)) \<circ> (\<lambda>k. int k + 1)) [nat (s - 1)..<nat e]
        = filter (\<lambda>k. k < length pages) [nat (s - 1)..<nat e]"
      by (rule filter_cong) auto
  qed
qed

lemma extract_range_from_page_one:
  assumes "1 \<le> s"
  shows "extract_range pages (py_range (s - 1) e) writer =
     (map (\<lambda>k. Print (PageMissing k)) (missing_pages pages (s, e)),
      Inr (writer @ existing_pages pages (s, e)))"
proof -
  have r: "py_range (s - 1) e = map int [nat (s - 1)..<nat e]"
    using assms by (simp add: py_range_nat)
  show ?thesis
    unfolding r extract_range_nat missing_pages_nat[OF assms] existing_pages_nat[OF assms]
    by (simp add: comp_def)
qed

lemma extract_ranges_from_page_one:
  assumes "map start_end toks = map Inr rs" and "\<forall>r \<in> set rs. 1 \<le> fst r"
  shows "extract_ranges pages toks writer =
     (concat (map (\<lambda>r. map (\<lambda>k. Print (PageMissing k)) (missing_pages pages r)) rs),
      Inr (writer @ concat (map (existing_pages pages) rs)))"
  using assms
proof (induction toks arbitrary: rs writer)
  case Nil
  then show ?case by simp
next
  case (Cons t toks)
  then obtain r rs' where rs: "rs = r # rs'" by (cases rs) auto
  obtain s e where r: "r = (s, e)" by (cases r)
  from Cons.prems rs r have t: "start_end t = Inr (s, e)" and rest: "map start_end toks = map Inr rs'"
    and s: "1 \<le> s" and pos: "\<forall>r \<in> set rs'. 1 \<le> fst r" by auto
  show ?case
    by (simp add: t rs r extract_range_from_page_one[OF s] Cons.IH[OF rest pos])
qed

lemma range_total_decoded:
  "map start_end toks = map Inr rs \<Longrightarrow> \<exists>n. range_total toks = Inr n"
proof (induction toks arbitrary: rs)
  case Nil
  then show ?case by simp
next
  case (Cons t toks)
  then obtain r rs' where rs: "rs = r # rs'" by (cases rs) auto
  with Cons.prems have t: "start_end t = Inr r" and rest: "map start_end toks = map Inr rs'" by auto
  from Cons.IH[OF rest] obtain n where "range_total toks = Inr n" by blast
  with t show ?case by (cases r) simp
qed

lemma extract_pages_from_page_one:
  assumes "PdfReader env input_pdf = Inr pages"
    and "map start_end toks = map Inr rs"
    and "\<forall>r \<in> set rs. 1 \<le> fst r"
    and "open_wb env output_pdf = None"
  shows "extract_pages env input_pdf output_pdf toks =
     (concat (map (\<lambda>r. map (\<lambda>k. Print (PageMissing k)) (missing_pages pages r)) rs)
        @ [Write output_pdf (concat (map (existing_pages pages) rs)),
           Print (ExtractSuccess output_pdf)],
      None)"
proof -
  obtain n where n: "range_total toks = Inr n"
    using range_total_decoded[OF assms(2)] by blast
  show ?thesis
    by (simp add: extract_pages_def extract_body_def except_Exception_def assms(1) n
        extract_ranges_from_page_one[OF assms(2,3)] write_pdf_def assms(4))
qed







subsection \<open>The loops of delete\<close>

lemma keep_pages_nat:
  "\<forall>k \<in> set ks. k < length pages \<Longrightarrow>
     keep_pages pages X (map int ks) writer =
       Inr (writer @ map (\<lambda>k. pages ! k) (filter (\<lambda>k. int k \<notin> X) ks))"
  by (induction ks arbitrary: writer) (simp_all add: getitem_nat)

lemma keep_pages_all:
  "keep_pages pages X (py_range 0 (int (length pages))) [] =
     Inr (map (\<lambda>k. pages ! k) (filter (\<lambda>k. int k \<notin> X) [0..<length pages]))"
  using keep_pages_nat[of "[0..<length pages]" pages X "[]"] py_range_int[of 0 "length pages"]
  by simp

lemma exclude_ranges_decoded:
  "map start_end toks = map Inr rs \<Longrightarrow>
     exclude_ranges toks X = Inr (X \<union> (\<Union>r \<in> set rs. set (py_range (fst r - 1) (snd r))))"
proof (induction toks arbitrary: rs X)
  case Nil
  then show ?case by simp
next
  case (Cons t toks)
  then obtain r rs' where rs: "rs = r # rs'" by (cases rs) auto
  with Cons.prems have t: "start_end t = Inr r" and rest: "map start_end toks = map Inr rs'" by auto
  show ?case
    by (cases r) (simp add: t rs Cons.IH[OF rest] Un_assoc)
qed

lemma in_py_range: "int k \<in> set (py_range (fst r - 1) (snd r)) \<longleftrightarrow> in_range k r"
  by (auto simp: py_range_def in_range_def)

lemma delete_pages_decoded:
  assumes "PdfReader env input_pdf = Inr pages"
    and "map start_end toks = map Inr rs"
    and "open_wb env output_pdf = None"
  shows "delete_pages env input_pdf output_pdf toks =
     ([Write output_pdf
         (map (\<lambda>k. pages ! k) (filter (\<lambda>k. \<not> (\<exists>r \<in> set rs. in_range k r)) [0..<length pages])),
       Print (DeleteSuccess output_pdf)],
      None)"
proof -
  have "(\<lambda>k. int k \<notin> {} \<union> (\<Union>r \<in> set rs. set (py_range (fst r - 1) (snd r))))
      = (\<lambda>k. \<not> (\<exists>r \<in> set rs. in_range k r))"
    by (simp add: in_py_range)
  then show ?thesis
    by (simp add: delete_pages_def delete_body_def except_Exception_def assms(1)
        exclude_ranges_decoded[OF assms(2)] keep_pages_all write_pdf_def assms(3))
qed

subsection \<open>The loops of merge and of split\<close>

lemma add_all_append: "add_all pages writer = writer @ pages"
  by (induction pages arbitrary: writer) simp_all

lemma PdfReader_is_pdf: "is_pdf env f \<Longrightarrow> PdfReader env f = Inr (pages_at env f)"
  by (auto simp: is_pdf_def PdfReader_def pages_at_def split: option.splits node.splits)

lemma is_pdf_exists: "is_pdf env f \<Longrightarrow> path_exists env f"
  by (auto simp: is_pdf_def path_exists_def split: option.splits)

lemma count_pages_readable:
  "\<forall>f \<in> set fs. path_exists env f \<longrightarrow> is_pdf env f \<Longrightarrow> \<exists>n. count_pages env fs total_pages = Inr n"
  by (induction fs arbitrary: total_pages) (simp_all add: PdfReader_is_pdf)

lemma merge_files_readable:
  "\<forall>f \<in> set fs. path_exists env f \<longrightarrow> is_pdf env f \<Longrightarrow>
     merge_files env fs writer =
       (map (\<lambda>f. Print (FileMissing f)) (filter (\<lambda>f. \<not> path_exists env f) fs),
        Inr (writer @ concat (map (pages_at env) (filter (path_exists env) fs))))"
  by (induction fs arbitrary: writer) (simp_all add: PdfReader_is_pdf add_all_append)

lemma merge_pdfs_readable:
  assumes "\<forall>f \<in> set fs. path_exists env f \<longrightarrow> is_pdf env f"
    and "open_wb env output_pdf = None"
  shows "merge_pdfs env fs output_pdf =
     (map (\<lambda>f. Print (FileMissing f)) (filter (\<lambda>f. \<not> path_exists env f) fs)
        @ [Write output_pdf (concat (map (pages_at env) (filter (path_exists env) fs))),
           Print (MergeSuccess output_pdf)],
      None)"
proof -
  obtain n where n: "count_pages env fs 0 = Inr n"
    using count_pages_readable[OF assms(1)] by blast
  show ?thesis
    by (simp add: merge_pdfs_def merge_body_def except_Exception_def n
        merge_files_readable[OF assms(1)] write_pdf_def assms(2))
qed

lemma add_pages_nat:
  "\<forall>k \<in> set ks. k < length pages \<Longrightarrow>
     add_pages pages (map int ks) writer = Inr (writer @ map (\<lambda>k. pages ! k) ks)"
  by (induction ks arbitrary: writer) (simp_all add: getitem_nat)

subsection \<open>Merge: results\<close>

text \<open>
  C4: for every list of input paths, the output of merge is the concatenation, in the
  given order, of all pages of each listed file that exists; a path that does not exist is
  skipped with a warning; the output is written once, at the end. In particular a 3-page
  file followed by a 2-page file gives the five pages, the first file's first. The
  listed files that exist are PDF documents and the output can be written.
\<close>

theorem merge_concatenates_existing_files:
  assumes "open_wb env output_pdf = None"
  shows "((\<forall>f \<in> set input_files. path_exists env f \<longrightarrow> is_pdf env f) \<longrightarrow>
          merge_pdfs env input_files output_pdf =
            (map (\<lambda>f. Print (FileMissing f)) (filter (\<lambda>f. \<not> path_exists env f) input_files)
               @ [Write output_pdf
                    (concat (map (pages_at env) (filter (path_exists env) input_files))),
                  Print (MergeSuccess output_pdf)],
             None))
       \<and> (files env A = Some (Pdf [a1, a2, a3]) \<and> files env B = Some (Pdf [b1, b2]) \<longrightarrow>
          merge_pdfs env [A, B] output_pdf =
            ([Write output_pdf [a1, a2, a3, b1, b2], Print (MergeSuccess output_pdf)], None))"
proof (intro conjI impI)
  assume "\<forall>f \<in> set input_files. path_exists env f \<longrightarrow> is_pdf env f"
  then show "merge_pdfs env input_files output_pdf =
      (map (\<lambda>f. Print (FileMissing f)) (filter (\<lambda>f. \<not> path_exists env f) input_files)
         @ [Write output_pdf
              (concat (map (pages_at env) (filter (path_exists env) input_files))),
            Print (MergeSuccess output_pdf)],
       None)"
    by (rule merge_pdfs_readable) (rule assms)
next
  assume ab: "files env A = Some (Pdf [a1, a2, a3]) \<and> files env B = Some (Pdf [b1, b2])"
  then have "\<forall>f \<in> set [A, B]. path_exists env f \<longrightarrow> is_pdf env f"
    by (auto simp: is_pdf_def)
  from merge_pdfs_readable[OF this assms] ab
  show "merge_pdfs env [A, B] output_pdf =
      ([Write output_pdf [a1, a2, a3, b1, b2], Print (MergeSuccess output_pdf)], None)"
    by (auto simp: path_exists_def pages_at_def)
qed

theorem merge_concatenates_existing_files_witness:
  "merge_pdfs sample_env [''a.pdf'', ''missing.pdf'', ''b.pdf''] ''out.pdf'' =
     ([Print (FileMissing ''missing.pdf''), Write ''out.pdf'' [1, 2, 3, 4, 5],
       Print (MergeSuccess ''out.pdf'')], None)
   \<and> merge_pdfs sample_env [''a.pdf'', ''b.pdf''] ''out.pdf'' =
     ([Write ''out.pdf'' [1, 2, 3, 4, 5], Print (MergeSuccess ''out.pdf'')], None)"
proof -
  have w: "open_wb sample_env ''out.pdf'' = None" by (simp add: sample_env_def)
  have r: "\<forall>f \<in> set [''a.pdf'', ''missing.pdf'', ''b.pdf''].
      path_exists sample_env f \<longrightarrow> is_pdf sample_env f"
    by (simp add: sample_env_def path_exists_def is_pdf_def)
  have a: "files sample_env ''a.pdf'' = Some (Pdf [1, 2, 3])
      \<and> files sample_env ''b.pdf'' = Some (Pdf [4, 5])"
    by (simp add: sample_env_def)
  note t = merge_concatenates_existing_files[OF w]
  from t[of "[''a.pdf'', ''missing.pdf'', ''b.pdf'']", THEN conjunct1, THEN mp, OF r]
    t[of _ "''a.pdf''" 1 2 3 "''b.pdf''" 4 5, THEN conjunct2, THEN mp, OF a]
  show ?thesis
    by (simp add: sample_env_def path_exists_def pages_at_def)
qed

text \<open>
  C10: when no listed file exists (the empty list included), merge warns about each path,
  still writes a document without pages to the destination, and reports success. The
  output can be written.
\<close>

theorem merge_without_existing_files:
  assumes "\<forall>f \<in> set input_files. \<not> path_exists env f"
    and "open_wb env output_pdf = None"
  shows "merge_pdfs env input_files output_pdf =
     (map (\<lambda>f. Print (FileMissing f)) input_files
        @ [Write output_pdf [], Print (MergeSuccess output_pdf)],
      None)"
proof -
  have r: "\<forall>f \<in> set input_files. path_exists env f \<longrightarrow> is_pdf env f"
    using assms(1) by simp
  have "filter (\<lambda>f. \<not> path_exists env f) input_files = input_files"
    and "filter (path_exists env) input_files = []"
    using assms(1) by (simp_all add: filter_id_conv filter_empty_conv)
  with merge_pdfs_readable[OF r assms(2)] show ?thesis by simp
qed

theorem merge_without_existing_files_witness:
  "merge_pdfs sample_env [''x.pdf'', ''y.pdf''] ''out.pdf'' =
     ([Print (FileMissing ''x.pdf''), Print (FileMissing ''y.pdf''),
       Write ''out.pdf'' [], Print (MergeSuccess ''out.pdf'')], None)
   \<and> merge_pdfs sample_env [] ''out.pdf'' =
     ([Write ''out.pdf'' [], Print (MergeSuccess ''out.pdf'')], None)"
proof -
  have w: "open_wb sample_env ''out.pdf'' = None" by (simp add: sample_env_def)
  have m: "\<forall>f \<in> set [''x.pdf'', ''y.pdf'']. \<not> path_exists sample_env f"
    by (simp add: sample_env_def path_exists_def)
  have n: "\<forall>f \<in> set []. \<not> path_exists sample_env f" by simp
  from merge_without_existing_files[OF m w] merge_without_existing_files[OF n w]
  show ?thesis by simp
qed

subsection \<open>Delete: results\<close>

text \<open>
  C3: for every source document and every list of ranges to delete, the output of delete
  is exactly the source pages, in their order, whose page number lies in none of the
  ranges; ranges that repeat a page or reach outside the document cause no error. In
  particular, deleting "3-5" from a 10-page document leaves pages 1, 2, 6, 7, 8, 9, 10.
  The source is a PDF document, the tokens decode to the ranges, the output can be
  written.
\<close>

theorem delete_keeps_pages_outside_ranges:
  assumes "PdfReader env input_pdf = Inr pages"
    and "open_wb env output_pdf = None"
  shows "(map start_end page_ranges_to_delete = map Inr rs \<longrightarrow>
          delete_pages env input_pdf output_pdf page_ranges_to_delete =
            ([Write output_pdf
                (map (\<lambda>k. pages ! k)
                   (filter (\<lambda>k. \<not> (\<exists>r \<in> set rs. in_range k r)) [0..<length pages])),
              Print (DeleteSuccess output_pdf)],
             None))
       \<and> (pages = [p1, p2, p3, p4, p5, p6, p7, p8, p9, p10] \<longrightarrow>
          delete_pages env input_pdf output_pdf [''3-5''] =
            ([Write output_pdf [p1, p2, p6, p7, p8, p9, p10],
              Print (DeleteSuccess output_pdf)],
             None))"
proof (intro conjI impI)
  assume "map start_end page_ranges_to_delete = map Inr rs"
  from delete_pages_decoded[OF assms(1) this assms(2)]
  show "delete_pages env input_pdf output_pdf page_ranges_to_delete =
      ([Write output_pdf
          (map (\<lambda>k. pages ! k)
             (filter (\<lambda>k. \<not> (\<exists>r \<in> set rs. in_range k r)) [0..<length pages])),
        Print (DeleteSuccess output_pdf)],
       None)" .
next
  assume ten: "pages = [p1, p2, p3, p4, p5, p6, p7, p8, p9, p10]"
  have d: "map start_end [''3-5''] = map Inr [(3, 5)]"
    by (simp add: start_end_def py_int_def unsigned_int_def int_space_def is_digit_def
        digit_value_def)
  have u: "[0..<length pages] = [0, 1, 2, 3, 4, 5, 6, 7, 8, 9]"
    unfolding ten by (simp add: upt_rec)
  show "delete_pages env input_pdf output_pdf [''3-5''] =
      ([Write output_pdf [p1, p2, p6, p7, p8, p9, p10], Print (DeleteSuccess output_pdf)],
       None)"
    unfolding delete_pages_decoded[OF assms(1) d assms(2)] u
    by (simp add: in_range_def ten)
qed

theorem delete_keeps_pages_outside_ranges_witness:
  "delete_pages sample_env ''/docs/ten.v2.pdf'' ''out.pdf'' [''0-2'', ''2-3'', ''9-20''] =
     ([Write ''out.pdf'' [4, 5, 6, 7, 8], Print (DeleteSuccess ''out.pdf'')], None)
   \<and> delete_pages sample_env ''/docs/ten.v2.pdf'' ''out.pdf'' [''3-5''] =
     ([Write ''out.pdf'' [1, 2, 6, 7, 8, 9, 10], Print (DeleteSuccess ''out.pdf'')], None)"
proof -
  have r: "PdfReader sample_env ''/docs/ten.v2.pdf'' = Inr [1, 2, 3, 4, 5, 6, 7, 8, 9, 10]"
    by (simp add: sample_env_def PdfReader_def)
  have w: "open_wb sample_env ''out.pdf'' = None" by (simp add: sample_env_def)
  have d: "map start_end [''0-2'', ''2-3'', ''9-20''] = map Inr [(0, 2), (2, 3), (9, 20)]"
    by (simp add: start_end_def py_int_def unsigned_int_def int_space_def is_digit_def
        digit_value_def)
  have u: "[0..<length [1, 2, 3, 4, 5, 6, 7, 8, 9, 10 :: nat]] = [0, 1, 2, 3, 4, 5, 6, 7, 8, 9]"
    by (simp add: upt_rec)
  note t = delete_keeps_pages_outside_ranges[OF r w]
  from t[THEN conjunct1, THEN mp, OF d] t[THEN conjunct2, THEN mp, OF refl]
  show ?thesis
    unfolding u by (simp add: in_range_def)
qed

subsection \<open>Extract: results\<close>

lemma range_total_skip:
  "start_end t = Inr (s, e) \<Longrightarrow>
     range_total (xs @ t # ys) = map_sum id (\<lambda>n. n + (e - s + 1)) (range_total (xs @ ys))"
proof (induction xs)
  case Nil
  then show ?case by (cases "range_total ys") simp_all
next
  case (Cons x xs)
  then show ?case
    by (cases "start_end x"; cases "range_total (xs @ ys)") (auto split: prod.splits)
qed

lemma extract_ranges_skip:
  "start_end t = Inr (s, e) \<Longrightarrow> e < s \<Longrightarrow>
     extract_ranges pages (xs @ t # ys) writer = extract_ranges pages (xs @ ys) writer"
proof (induction xs arbitrary: writer)
  case Nil
  then show ?case by (simp add: py_range_empty)
next
  case (Cons x xs)
  then show ?case by (simp split: sum.splits prod.splits)
qed

lemma exclude_ranges_skip:
  "start_end t = Inr (s, e) \<Longrightarrow> e < s \<Longrightarrow>
     exclude_ranges (xs @ t # ys) X = exclude_ranges (xs @ ys) X"
proof (induction xs arbitrary: X)
  case Nil
  then show ?case by (simp add: py_range_empty)
next
  case (Cons x xs)
  then show ?case by (simp split: sum.splits prod.splits)
qed

lemma extract_pages_skip:
  assumes "start_end t = Inr (s, e)" and "e < s"
  shows "extract_pages env input_pdf output_pdf (xs @ t # ys) =
         extract_pages env input_pdf output_pdf (xs @ ys)"
proof -
  have "extract_body env input_pdf output_pdf (xs @ t # ys) =
        extract_body env input_pdf output_pdf (xs @ ys)"
    unfolding extract_body_def range_total_skip[OF assms(1)] extract_ranges_skip[OF assms]
    by (cases "range_total (xs @ ys)") (simp_all split: sum.splits)
  then show ?thesis by (simp add: extract_pages_def)
qed

lemma delete_pages_skip:
  assumes "start_end t = Inr (s, e)" and "e < s"
  shows "delete_pages env input_pdf output_pdf (xs @ t # ys) =
         delete_pages env input_pdf output_pdf (xs @ ys)"
  unfolding delete_pages_def delete_body_def exclude_ranges_skip[OF assms] ..

subsection \<open>Decimal rendering read back by \<open>int\<close>\<close>

lemma digit_char:
  assumes "n < 10"
  shows "is_digit (''0123456789'' ! n) \<and> digit_value (''0123456789'' ! n) = int n"
proof -
  have "list_all (\<lambda>k. is_digit (''0123456789'' ! k) \<and> digit_value (''0123456789'' ! k) = int k)
      [0..<10]"
    by (simp add: upt_rec is_digit_def digit_value_def)
  moreover have "n \<in> set [0..<10]" using assms by simp
  ultimately show ?thesis unfolding list_all_iff by blast
qed

lemma is_digit_plain:
  "is_digit c \<Longrightarrow> c \<noteq> CHR ''_'' \<and> c \<noteq> CHR ''-'' \<and> c \<noteq> CHR ''+'' \<and> \<not> int_space c"
  by (auto simp: is_digit_def int_space_def Let_def)

lemma long_digits_snoc:
  "\<forall>c \<in> set xs. is_digit c \<Longrightarrow> is_digit d \<Longrightarrow> prev \<noteq> CHR ''_'' \<Longrightarrow>
     long_digits prev acc (xs @ [d]) =
       (case long_digits prev acc xs of
          Inl e \<Rightarrow> Inl e
        | Inr a \<Rightarrow> Inr (10 * a + digit_value d))"
proof (induction xs arbitrary: prev acc)
  case Nil
  then show ?case using is_digit_plain[of d] by simp
next
  case (Cons c xs)
  then have c: "is_digit c" and cu: "c \<noteq> CHR ''_''" using is_digit_plain[of c] by auto
  from Cons.IH[of c "10 * acc + digit_value c"] Cons.prems cu
  show ?case using c by simp
qed

lemma digits_of_digits: "\<forall>c \<in> set (digits_of n). is_digit c"
proof (induction n rule: digits_of.induct)
  case (1 n)
  show ?case
  proof (cases "n < 10")
    case True
    then show ?thesis using digit_char[of n] by (subst digits_of.simps) simp
  next
    case False
    then show ?thesis
      using 1 digit_char[of "n mod 10"] by (subst digits_of.simps) simp
  qed
qed

lemma digits_of_nonempty: "digits_of n \<noteq> []"
  by (subst digits_of.simps) simp

lemma long_digits_digits_of:
  "long_digits (CHR 0x00) 0 (digits_of n) = Inr (int n)"
proof (induction n rule: digits_of.induct)
  case (1 n)
  show ?case
  proof (cases "n < 10")
    case True
    then show ?thesis
      using digit_char[of n] is_digit_plain[of "''0123456789'' ! n"]
      by (subst digits_of.simps) simp
  next
    case False
    have d: "is_digit (''0123456789'' ! (n mod 10))"
      and v: "digit_value (''0123456789'' ! (n mod 10)) = int (n mod 10)"
      using digit_char[of "n mod 10"] by simp_all
    have "long_digits (CHR 0x00) 0 (digits_of (n div 10) @ [''0123456789'' ! (n mod 10)])
        = Inr (10 * int (n div 10) + int (n mod 10))"
      using long_digits_snoc[OF digits_of_digits d, of "CHR 0x00" 0 "n div 10"] 1[OF False] v
      by simp
    also have "10 * int (n div 10) + int (n mod 10) = int n"
      by (simp add: zdiv_int zmod_int)
    finally show ?thesis using False by (subst digits_of.simps) simp
  qed
qed

lemma strip_int_space_id:
  "s \<noteq> [] \<Longrightarrow> \<forall>c \<in> set s. \<not> int_space c \<Longrightarrow>
     rev (dropWhile int_space (rev (dropWhile int_space s))) = s"
proof -
  assume ne: "s \<noteq> []" and ns: "\<forall>c \<in> set s. \<not> int_space c"
  then have "dropWhile int_space s = s" by (cases s) auto
  moreover have "dropWhile int_space (rev s) = rev s"
    using ne ns by (cases "rev s") (auto simp: rev_is_Nil_conv dest: arg_cong[where f=set])
  ultimately show ?thesis by simp
qed

lemma py_int_digits_of: "py_int (digits_of n) = Inr (int n)"
proof -
  obtain c cs where s: "digits_of n = c # cs"
    using digits_of_nonempty[of n] by (cases "digits_of n") auto
  have all: "\<forall>c \<in> set (digits_of n). \<not> int_space c"
    using digits_of_digits[of n] is_digit_plain by blast
  have c: "is_digit c" using digits_of_digits[of n] s by simp
  have "py_int (digits_of n) = unsigned_int (digits_of n)"
    unfolding py_int_def strip_int_space_id[OF digits_of_nonempty all]
    using is_digit_plain[OF c] by (simp add: s)
  also have "\<dots> = long_digits (CHR 0x00) 0 (digits_of n)"
    using is_digit_plain[OF c] by (simp add: unsigned_int_def s)
  finally show ?thesis by (simp add: long_digits_digits_of)
qed

lemma py_int_str_int: "0 \<le> i \<Longrightarrow> py_int (str_int i) = Inr i"
  by (simp add: str_int_def py_int_digits_of)




lemma extract_pages_no_ranges:
  assumes "PdfReader env input_pdf = Inr pages" and "open_wb env output_pdf = None"
  shows "extract_pages env input_pdf output_pdf [] =
     ([Write output_pdf [], Print (ExtractSuccess output_pdf)], None)"
  by (simp add: extract_pages_def extract_body_def except_Exception_def write_pdf_def assms)

lemma delete_pages_no_ranges:
  assumes "PdfReader env input_pdf = Inr pages" and "open_wb env output_pdf = None"
  shows "delete_pages env input_pdf output_pdf [] =
     ([Write output_pdf pages, Print (DeleteSuccess output_pdf)], None)"
  using delete_pages_decoded[OF assms(1) _ assms(2), of "[]" "[]"] by (simp add: map_nth)

text \<open>
  By \<open>extract_pages_from_page_one\<close>, for ranges that start at page 1 or later the output
  of extract is the concatenation, over the ranges in input order, of the pages
  \<open>start..end\<close> that exist, in page order, and each page number beyond the length of the
  document is skipped with a warning. Nothing is deduplicated: a page that two ranges
  cover is written twice.
\<close>

lemma extract_pages_overlap:
  assumes "PdfReader env input_pdf = Inr [p1, p2, p3]" and "open_wb env output_pdf = None"
  shows "extract_pages env input_pdf output_pdf [''1-2'', ''2-4''] =
     ([Print (PageMissing 4), Write output_pdf [p1, p2, p2, p3],
       Print (ExtractSuccess output_pdf)], None)"
proof -
  have d: "map start_end [''1-2'', ''2-4''] = map Inr [(1, 2), (2, 4)]"
    by (simp add: start_end_def py_int_def unsigned_int_def int_space_def is_digit_def
        digit_value_def)
  have p: "\<forall>r \<in> set [(1, 2), (2, 4 :: int)]. (1 :: int) \<le> fst r" by simp
  have u: "[1..2] = [1, 2 :: int]" "[2..4] = [2, 3, 4 :: int]"
    by (simp_all add: upto.simps)
  show ?thesis
    unfolding extract_pages_from_page_one[OF assms(1) d p assms(2)]
    by (simp add: missing_pages_def existing_pages_def u)
qed

text \<open>
  C2: for every source document and every list of ranges, the output of extract is the
  concatenation of the pages \<open>start..end\<close> that exist. The code breaks this for a range
  that starts at page 0: on the 3-page document \<open>a.pdf\<close> the token "0-2" names the
  existing pages 1 and 2, and extract writes page 3 before them, because the page number
  \<open>-1\<close> passes the test \<open>page_num < len(reader.pages)\<close> and indexes from the end.
\<close>

theorem extract_page_zero_takes_last_page:
  "extract_pages sample_env ''a.pdf'' ''out.pdf'' [''0-2''] =
     ([Write ''out.pdf'' [3, 1, 2], Print (ExtractSuccess ''out.pdf'')], None)
   \<and> PdfReader sample_env ''a.pdf'' = Inr [1, 2, 3]
   \<and> start_end ''0-2'' = Inr (0, 2)
   \<and> existing_pages [1, 2, 3 :: nat] (0, 2) = [1, 2]"
proof -
  have u: "[- 1..1] = [- 1, 0, 1 :: int]" "[0..2] = [0, 1, 2 :: int]"
    by (simp_all add: upto.simps)
  show ?thesis
    by (simp add: extract_pages_def extract_body_def except_Exception_def sample_env_def
        PdfReader_def write_pdf_def start_end_def py_int_def unsigned_int_def int_space_def
        is_digit_def digit_value_def py_range_def getitem_def existing_pages_def u)
qed




text \<open>
  C9: a range token whose start exceeds its end, such as "5-3", stands for no page:
  extract copies nothing for it and delete excludes nothing for it, so either operation
  behaves as if the token were not in the list, and a list made of that token alone is
  processed without error.
\<close>

theorem inverted_range_selects_nothing:
  assumes "start_end t = Inr (s, e)" and "e < s"
  shows "extract_pages env input_pdf output_pdf (xs @ t # ys) =
           extract_pages env input_pdf output_pdf (xs @ ys)
       \<and> delete_pages env input_pdf output_pdf (xs @ t # ys) =
           delete_pages env input_pdf output_pdf (xs @ ys)
       \<and> (PdfReader env input_pdf = Inr pages \<and> open_wb env output_pdf = None \<longrightarrow>
            extract_pages env input_pdf output_pdf [t] =
              ([Write output_pdf [], Print (ExtractSuccess output_pdf)], None)
          \<and> delete_pages env input_pdf output_pdf [t] =
              ([Write output_pdf pages, Print (DeleteSuccess output_pdf)], None))"
proof (intro conjI impI)
  show "extract_pages env input_pdf output_pdf (xs @ t # ys) =
      extract_pages env input_pdf output_pdf (xs @ ys)"
    by (rule extract_pages_skip[OF assms])
  show "delete_pages env input_pdf output_pdf (xs @ t # ys) =
      delete_pages env input_pdf output_pdf (xs @ ys)"
    by (rule delete_pages_skip[OF assms])
next
  assume io: "PdfReader env input_pdf = Inr pages \<and> open_wb env output_pdf = None"
  show "extract_pages env input_pdf output_pdf [t] =
      ([Write output_pdf [], Print (ExtractSuccess output_pdf)], None)"
    using extract_pages_skip[OF assms, of env input_pdf output_pdf "[]" "[]"]
      extract_pages_no_ranges[of env input_pdf pages output_pdf] io by simp
  show "delete_pages env input_pdf output_pdf [t] =
      ([Write output_pdf pages, Print (DeleteSuccess output_pdf)], None)"
    using delete_pages_skip[OF assms, of env input_pdf output_pdf "[]" "[]"]
      delete_pages_no_ranges[of env input_pdf pages output_pdf] io by simp
qed

theorem inverted_range_selects_nothing_witness:
  "extract_pages sample_env ''a.pdf'' ''out.pdf'' [''1-2'', ''5-3'', ''3-3''] =
     extract_pages sample_env ''a.pdf'' ''out.pdf'' [''1-2'', ''3-3'']
   \<and> delete_pages sample_env ''a.pdf'' ''out.pdf'' [''1-2'', ''5-3'', ''3-3''] =
     delete_pages sample_env ''a.pdf'' ''out.pdf'' [''1-2'', ''3-3'']
   \<and> extract_pages sample_env ''a.pdf'' ''out.pdf'' [''5-3''] =
     ([Write ''out.pdf'' [], Print (ExtractSuccess ''out.pdf'')], None)
   \<and> delete_pages sample_env ''a.pdf'' ''out.pdf'' [''5-3''] =
     ([Write ''out.pdf'' [1, 2, 3], Print (DeleteSuccess ''out.pdf'')], None)"
proof -
  have d: "start_end ''5-3'' = Inr (5, 3)"
    by (simp add: start_end_def py_int_def unsigned_int_def int_space_def is_digit_def
        digit_value_def)
  have lt: "(3 :: int) < 5" by simp
  have io: "PdfReader sample_env ''a.pdf'' = Inr [1, 2, 3]
      \<and> open_wb sample_env ''out.pdf'' = None"
    by (simp add: sample_env_def PdfReader_def)
  note t = inverted_range_selects_nothing[OF d lt, of sample_env "''a.pdf''" "''out.pdf''"]
  from t[of "[''1-2'']" "[''3-3'']", THEN conjunct1]
    t[of "[''1-2'']" "[''3-3'']", THEN conjunct2, THEN conjunct1]
    t[THEN conjunct2, THEN conjunct2, THEN mp, OF io]
  show ?thesis by simp
qed

subsection \<open>Split: results\<close>

lemma num_parts_ceiling:
  assumes "0 < (p :: int)"
  shows "(n + p - 1) div p = \<lceil>real_of_int n / real_of_int p\<rceil>"
proof -
  let ?q = "(n + p - 1) div p"
  have e: "?q * p + (n + p - 1) mod p = n + p - 1" by (rule div_mult_mod_eq)
  have m: "0 \<le> (n + p - 1) mod p" "(n + p - 1) mod p < p"
    using assms by simp_all
  have d: "(?q - 1) * p = ?q * p - p" by (simp add: algebra_simps)
  have lo: "(?q - 1) * p < n" unfolding d using e m by linarith
  have hi: "n \<le> ?q * p" using e m by linarith
  have "real_of_int ?q - 1 < real_of_int n / real_of_int p"
  proof -
    have "real_of_int ((?q - 1) * p) < real_of_int n" using lo by (simp only: of_int_less_iff)
    then show ?thesis using assms by (simp add: pos_less_divide_eq)
  qed
  moreover have "real_of_int n / real_of_int p \<le> real_of_int ?q"
  proof -
    have "real_of_int n \<le> real_of_int (?q * p)" using hi by (simp only: of_int_le_iff)
    then show ?thesis using assms by (simp add: pos_divide_le_eq)
  qed
  ultimately show ?thesis by (simp add: ceiling_unique)
qed

lemma part_pages:
  assumes "0 < p"
  shows "add_pages pages
           (py_range (int i * int p) (min ((int i + 1) * int p) (int (length pages)))) [] =
         Inr (map (\<lambda>k. pages ! k) [i * p..<min ((i + 1) * p) (length pages)])"
proof -
  have a: "int i * int p = int (i * p)" by simp
  have c: "(int i + 1) * int p = int ((i + 1) * p)" by (simp add: algebra_simps)
  have b: "min ((int i + 1) * int p) (int (length pages)) = int (min ((i + 1) * p) (length pages))"
    unfolding c by (simp only: of_nat_min)
  show ?thesis
    unfolding a b py_range_int
    by (rule add_pages_nat[where writer="[]", simplified]) simp
qed

lemma split_parts_written:
  assumes "0 < p"
    and "\<forall>i \<in> set ks. open_wb env (part_path output_dir base_name (int i)) = None"
  shows "split_parts env pages (int p) (int (length pages)) output_dir base_name (map int ks) =
     (map (\<lambda>i. Write (part_path output_dir base_name (int i))
                 (map (\<lambda>k. pages ! k) [i * p..<min ((i + 1) * p) (length pages)])) ks,
      None)"
  using assms(2)
proof (induction ks)
  case Nil
  show ?case by simp
next
  case (Cons k ks)
  then show ?case
    by (simp add: part_pages[OF assms(1)] write_pdf_def Let_def)
qed

lemma basename_no_slash: "CHR ''/'' \<notin> set (basename p)"
proof -
  have "\<forall>c \<in> set (takeWhile (\<lambda>c. c \<noteq> CHR ''/'') (rev p)). c \<noteq> CHR ''/''"
    by (auto dest: set_takeWhileD)
  then show ?thesis by (auto simp: basename_def)
qed

lemma splitext_root_subset: "set (splitext_root p) \<subseteq> set p"
  by (auto simp: splitext_root_def Let_def dest: in_set_takeD)

lemma part_file_no_leading_slash:
  assumes "CHR ''/'' \<notin> set base_name"
  shows "path_join output_dir (base_name @ ''_part'' @ s @ ''.pdf'') =
         (if output_dir = [] \<or> last output_dir = CHR ''/'' then output_dir
          else output_dir @ ''/'') @ base_name @ ''_part'' @ s @ ''.pdf''"
proof -
  have "hd (base_name @ ''_part'' @ s @ ''.pdf'') \<noteq> CHR ''/''"
    using assms by (cases base_name) auto
  then show ?thesis by (simp add: path_join_def)
qed

lemma str_int_inj: "0 \<le> a \<Longrightarrow> 0 \<le> b \<Longrightarrow> str_int a = str_int b \<Longrightarrow> a = b"
proof -
  assume a: "0 \<le> a" and b: "0 \<le> b" and e: "str_int a = str_int b"
  have "Inr a = py_int (str_int a)" using py_int_str_int[OF a] by simp
  also have "\<dots> = py_int (str_int b)" by (simp only: e)
  also have "\<dots> = Inr b" by (rule py_int_str_int[OF b])
  finally show "a = b" by simp
qed

lemma part_paths_distinct:
  assumes "CHR ''/'' \<notin> set base_name"
  shows "distinct (map (\<lambda>i. path_join output_dir
            (base_name @ ''_part'' @ str_int (int i + 1) @ ''.pdf'')) ks) = distinct ks"
proof -
  have "inj (\<lambda>i. path_join output_dir (base_name @ ''_part'' @ str_int (int i + 1) @ ''.pdf''))"
  proof (rule injI)
    fix i j :: nat
    assume "path_join output_dir (base_name @ ''_part'' @ str_int (int i + 1) @ ''.pdf'')
        = path_join output_dir (base_name @ ''_part'' @ str_int (int j + 1) @ ''.pdf'')"
    then have "str_int (int i + 1) = str_int (int j + 1)"
      unfolding part_file_no_leading_slash[OF assms] by simp
    then have "int i + 1 = int j + 1" by (rule str_int_inj[rotated 2]) simp_all
    then show "i = j" by simp
  qed
  then have "inj_on (\<lambda>i. path_join output_dir
      (base_name @ ''_part'' @ str_int (int i + 1) @ ''.pdf'')) (set ks)"
    by (rule inj_on_subset) simp
  then show ?thesis by (simp add: distinct_map)
qed

lemma split_pdf_parts:
  fixes pages :: "'p list"
  assumes r: "PdfReader env input_pdf = Inr pages"
    and p: "0 < pages_per_part"
    and l: "stdin env = Inr line"
    and d: "output_dir = (if strip line = [] then dirname input_pdf else strip line)"
    and m: "makedirs env output_dir = None"
    and b: "base_name = splitext_root (basename input_pdf)"
    and n: "num_parts = nat \<lceil>real (length pages) / real_of_int pages_per_part\<rceil>"
    and w: "\<forall>i < num_parts. open_wb env (path_join output_dir
              (base_name @ ''_part'' @ str_int (int i + 1) @ ''.pdf'')) = None"
  shows "split_pdf env input_pdf pages_per_part =
     (Print AskDirectory # Makedirs output_dir #
      map (\<lambda>i. Write (path_join output_dir
                         (base_name @ ''_part'' @ str_int (int i + 1) @ ''.pdf''))
                  (map (\<lambda>k. pages ! k)
                     [i * nat pages_per_part..<
                      min ((i + 1) * nat pages_per_part) (length pages)]))
        [0..<num_parts]
      @ [Print (SplitSuccess (int num_parts) output_dir base_name)],
      None)"
proof -
  define q where "q = nat pages_per_part"
  have q: "pages_per_part = int q" and q0: "0 < q"
    using p by (simp_all add: q_def)
  let ?np = "(int (length pages) + pages_per_part - 1) div pages_per_part"
  have c: "?np = \<lceil>real (length pages) / real_of_int pages_per_part\<rceil>"
    using num_parts_ceiling[OF p, of "int (length pages)"] by simp
  have nn: "0 \<le> ?np" using p by (simp add: pos_imp_zdiv_nonneg_iff)
  have np: "?np = int num_parts" using c nn n by simp
  have rg: "py_range 0 ?np = map int [0..<num_parts]"
    unfolding np using py_range_int[of 0 num_parts] by simp
  have ow: "\<forall>i \<in> set [0..<num_parts]. open_wb env (part_path output_dir base_name (int i)) = None"
    using w by (simp add: part_path_def)
  have ne: "pages_per_part \<noteq> 0" using p by simp
  have sp: "split_parts env pages pages_per_part (int (length pages)) output_dir base_name
        (py_range 0 ?np) =
      (map (\<lambda>i. Write (part_path output_dir base_name (int i))
                 (map (\<lambda>k. pages ! k) [i * q..<min ((i + 1) * q) (length pages)]))
         [0..<num_parts], None)"
    unfolding rg unfolding q by (rule split_parts_written[OF q0 ow[unfolded q]])
  have sb: "split_body env input_pdf pages_per_part =
      (Print AskDirectory # Makedirs output_dir #
       map (\<lambda>i. Write (part_path output_dir base_name (int i))
                 (map (\<lambda>k. pages ! k) [i * q..<min ((i + 1) * q) (length pages)]))
         [0..<num_parts]
       @ [Print (SplitSuccess ?np output_dir base_name)], None)"
    unfolding split_body_def r l Let_def
    using ne m sp by (simp add: d[symmetric] b[symmetric])
  show ?thesis
    unfolding split_pdf_def sb except_Exception_def np
    by (simp add: part_path_def q)
qed

text \<open>
  Where the directory can be created: for every document and every positive number of
  pages per part, split writes exactly \<open>ceil(totalPages / pagesPerPart)\<close> files; part
  \<open>i\<close> (counted from 0) holds the pages with 0-indexed numbers from \<open>i * pagesPerPart\<close>
  up to, not including, \<open>min((i + 1) * pagesPerPart, totalPages)\<close>, and is named with the
  base name of the source followed by \<open>_part\<close>, \<open>i + 1\<close> and \<open>.pdf\<close>; the names differ
  from one another. In particular 10 pages split by 4 give three files of 4, 4 and 2
  pages. The source is a PDF document, the prompt is answered and the parts can be written.
\<close>

lemma split_writes_consecutive_parts:
  fixes pages :: "'p list"
  assumes "PdfReader env input_pdf = Inr pages"
    and "0 < pages_per_part"
    and "stdin env = Inr line"
    and "output_dir = (if strip line = [] then dirname input_pdf else strip line)"
    and "makedirs env output_dir = None"
    and "base_name = splitext_root (basename input_pdf)"
    and "num_parts = nat \<lceil>real (length pages) / real_of_int pages_per_part\<rceil>"
    and "\<forall>i < num_parts. open_wb env (path_join output_dir
              (base_name @ ''_part'' @ str_int (int i + 1) @ ''.pdf'')) = None"
  shows "split_pdf env input_pdf pages_per_part =
           (Print AskDirectory # Makedirs output_dir #
            map (\<lambda>i. Write (path_join output_dir
                               (base_name @ ''_part'' @ str_int (int i + 1) @ ''.pdf''))
                        (map (\<lambda>k. pages ! k)
                           [i * nat pages_per_part..<
                            min ((i + 1) * nat pages_per_part) (length pages)]))
              [0..<num_parts]
            @ [Print (SplitSuccess (int num_parts) output_dir base_name)],
            None)
       \<and> distinct (map (\<lambda>i. path_join output_dir
                           (base_name @ ''_part'' @ str_int (int i + 1) @ ''.pdf''))
                    [0..<num_parts])
       \<and> (pages = [p1, p2, p3, p4, p5, p6, p7, p8, p9, p10] \<and> pages_per_part = 4 \<longrightarrow>
            split_pdf env input_pdf pages_per_part =
              ([Print AskDirectory, Makedirs output_dir,
                Write (path_join output_dir (base_name @ ''_part1.pdf'')) [p1, p2, p3, p4],
                Write (path_join output_dir (base_name @ ''_part2.pdf'')) [p5, p6, p7, p8],
                Write (path_join output_dir (base_name @ ''_part3.pdf'')) [p9, p10],
                Print (SplitSuccess 3 output_dir base_name)],
               None))"
proof (intro conjI impI)
  note main = split_pdf_parts[OF assms]
  show "split_pdf env input_pdf pages_per_part =
      (Print AskDirectory # Makedirs output_dir #
       map (\<lambda>i. Write (path_join output_dir
                          (base_name @ ''_part'' @ str_int (int i + 1) @ ''.pdf''))
                   (map (\<lambda>k. pages ! k)
                      [i * nat pages_per_part..<
                       min ((i + 1) * nat pages_per_part) (length pages)]))
         [0..<num_parts]
       @ [Print (SplitSuccess (int num_parts) output_dir base_name)],
       None)"
    by (rule main)
  have "CHR ''/'' \<notin> set base_name"
    using basename_no_slash[of input_pdf] splitext_root_subset[of "basename input_pdf"]
    unfolding assms(6) by blast
  then have "distinct (map (\<lambda>i. path_join output_dir
      (base_name @ ''_part'' @ str_int (int i + 1) @ ''.pdf'')) [0..<num_parts])
      = distinct [0..<num_parts]"
    by (rule part_paths_distinct)
  then show "distinct (map (\<lambda>i. path_join output_dir
      (base_name @ ''_part'' @ str_int (int i + 1) @ ''.pdf'')) [0..<num_parts])"
    by (simp only: distinct_upt)
  assume ten: "pages = [p1, p2, p3, p4, p5, p6, p7, p8, p9, p10] \<and> pages_per_part = 4"
  have n3: "num_parts = 3"
    using num_parts_ceiling[of 4 10] unfolding assms(7) using ten by simp
  have u: "[0..<3] = [0, 1, 2 :: nat]" "[0..<4] = [0, 1, 2, 3 :: nat]"
    "[4..<8] = [4, 5, 6, 7 :: nat]" "[8..<10] = [8, 9 :: nat]"
    by (simp_all add: upt_rec)
  have s: "str_int 1 = ''1''" "str_int 2 = ''2''" "str_int 3 = ''3''"
    by (simp_all add: str_int_def digits_of.simps)
  show "split_pdf env input_pdf pages_per_part =
      ([Print AskDirectory, Makedirs output_dir,
        Write (path_join output_dir (base_name @ ''_part1.pdf'')) [p1, p2, p3, p4],
        Write (path_join output_dir (base_name @ ''_part2.pdf'')) [p5, p6, p7, p8],
        Write (path_join output_dir (base_name @ ''_part3.pdf'')) [p9, p10],
        Print (SplitSuccess 3 output_dir base_name)],
       None)"
    unfolding main n3 u using ten by (simp add: u s)
qed

lemma split_writes_consecutive_parts_example:
  "split_pdf sample_env ''/docs/ten.v2.pdf'' 4 =
     ([Print AskDirectory, Makedirs ''/docs'',
       Write ''/docs/ten.v2_part1.pdf'' [1, 2, 3, 4],
       Write ''/docs/ten.v2_part2.pdf'' [5, 6, 7, 8],
       Write ''/docs/ten.v2_part3.pdf'' [9, 10],
       Print (SplitSuccess 3 ''/docs'' ''ten.v2'')],
      None)"
proof -
  have r: "PdfReader sample_env ''/docs/ten.v2.pdf'' = Inr [1, 2, 3, 4, 5, 6, 7, 8, 9, 10]"
    by (simp add: sample_env_def PdfReader_def)
  have p: "(0 :: int) < 4" by simp
  have l: "stdin sample_env = Inr []" by (simp add: sample_env_def)
  have d: "''/docs'' = (if strip [] = [] then dirname ''/docs/ten.v2.pdf'' else strip [])"
    by (simp add: strip_def dirname_def)
  have m: "makedirs sample_env ''/docs'' = None" by (simp add: makedirs_def sample_env_def)
  have b: "''ten.v2'' = splitext_root (basename ''/docs/ten.v2.pdf'')"
    by (simp add: splitext_root_def basename_def)
  have n: "(3 :: nat) = nat \<lceil>real (length [1, 2, 3, 4, 5, 6, 7, 8, 9, 10 :: nat]) / real_of_int 4\<rceil>"
    using num_parts_ceiling[of 4 10] by simp
  have w: "\<forall>i < (3 :: nat). open_wb sample_env (path_join ''/docs''
      (''ten.v2'' @ ''_part'' @ str_int (int i + 1) @ ''.pdf'')) = None"
    by (simp add: sample_env_def)
  from split_writes_consecutive_parts[OF r p l d m b n w,
      THEN conjunct2, THEN conjunct2, THEN mp, OF conjI[OF refl refl]]
  show ?thesis by (simp add: path_join_def)
qed

lemma split_pdf_empty_directory:
  assumes "PdfReader env input_pdf = Inr pages"
    and "pages_per_part \<noteq> 0"
    and "stdin env = Inr line"
    and "strip line = []"
    and "dirname input_pdf = []"
  shows "split_pdf env input_pdf pages_per_part =
     ([Print AskDirectory, Print (Error FileNotFoundError)], None)"
  by (simp add: split_pdf_def split_body_def except_Exception_def makedirs_def assms Let_def)

text \<open>
  C5: for every document and every positive number of pages per part, split writes
  \<open>ceil(totalPages / pagesPerPart)\<close> files. The code breaks this for a source path
  without a directory part when the prompt, which says "leave empty for same directory",
  is left empty: the directory name is then the empty string, \<open>os.makedirs\<close> refuses it,
  and split reports the error without writing a part. For the 3-page \<open>a.pdf\<close> split by 2
  the sentence gives two files.
\<close>

theorem split_bare_name_writes_nothing:
  "PdfReader sample_env ''a.pdf'' = Inr [1, 2, 3]
   \<and> stdin sample_env = Inr []
   \<and> dirname ''a.pdf'' = []
   \<and> nat \<lceil>real (length [1, 2, 3 :: nat]) / real_of_int 2\<rceil> = 2
   \<and> split_pdf sample_env ''a.pdf'' 2 =
       ([Print AskDirectory, Print (Error FileNotFoundError)], None)"
proof -
  have r: "PdfReader sample_env ''a.pdf'' = Inr [1, 2, 3]"
    by (simp add: sample_env_def PdfReader_def)
  have l: "stdin sample_env = Inr []" by (simp add: sample_env_def)
  have d: "dirname ''a.pdf'' = []" by (simp add: dirname_def)
  have n: "nat \<lceil>real (length [1, 2, 3 :: nat]) / real_of_int 2\<rceil> = 2"
    using num_parts_ceiling[of 2 3] by simp
  have "split_pdf sample_env ''a.pdf'' 2 =
      ([Print AskDirectory, Print (Error FileNotFoundError)], None)"
    by (simp add: split_pdf_def split_body_def except_Exception_def makedirs_def r l d
        strip_def)
  with r l d n show ?thesis by simp
qed

subsection \<open>Compress: results\<close>

lemma compress_handlers_returns: "snd (compress_handlers r) = None"
  by (cases r) (auto simp: compress_handlers_def split: option.splits)

lemma compress_pdf_returns: "snd (compress_pdf env input_pdf output_pdf level) = None"
proof -
  have t: "quality_map 3 = Some ''/ebook''" by (simp add: quality_map_def)
  have h: "snd (case compress_handlers b of (evs, r) \<Rightarrow> (f evs, r)) = None"
    for b :: "'a outcome" and f :: "'a event list \<Rightarrow> 'a event list"
    using compress_handlers_returns[of b] by (cases "compress_handlers b") simp
  show ?thesis
  proof (cases "quality_map level")
    case None
    then show ?thesis by (simp add: compress_pdf_def t h)
  next
    case (Some q)
    then show ?thesis by (simp add: compress_pdf_def h compress_handlers_returns)
  qed
qed

lemma command_line_expected:
  "1 \<le> level \<Longrightarrow> level \<le> 5 \<Longrightarrow> quality_map level = Some q \<Longrightarrow>
     command_line level q input_pdf output_pdf = expected_command level input_pdf output_pdf"
proof -
  assume "1 \<le> level" and "level \<le> 5" and q: "quality_map level = Some q"
  then have "level = 1 \<or> level = 2 \<or> level = 3 \<or> level = 4 \<or> level = 5" by arith
  then show ?thesis
    using q
    by (elim disjE)
      (auto simp: quality_map_def command_line_def gs_cmd_def custom_flags_def
        expected_command_def preset_def)
qed

lemma quality_map_dom: "quality_map level = None \<longleftrightarrow> \<not> (1 \<le> level \<and> level \<le> 5)"
proof
  assume "quality_map level = None"
  then show "\<not> (1 \<le> level \<and> level \<le> 5)"
    by (auto simp: quality_map_def split: if_splits)
next
  assume "\<not> (1 \<le> level \<and> level \<le> 5)"
  then show "quality_map level = None" by (auto simp: quality_map_def)
qed

text \<open>
  C6: compress selects the presets prepress, printer, ebook, screen, ebook for the levels
  1 to 5; level 5 also inserts the duplicate-image detection and 150 DPI downsampling flags
  before the preset flag; any other level falls back to level 3 with a warning, and the
  operation goes on instead of failing.
\<close>

theorem compress_level_selects_preset:
  "(1 \<le> level \<and> level \<le> 5 \<and> path_exists env input_pdf
      \<and> gs env (expected_command level input_pdf output_pdf) = Inr after \<longrightarrow>
      take 2 (fst (compress_pdf env input_pdf output_pdf level)) =
        [Print Compressing, Spawn (expected_command level input_pdf output_pdf)])
   \<and> (\<not> (1 \<le> level \<and> level \<le> 5) \<longrightarrow>
      compress_pdf env input_pdf output_pdf level =
        (Print InvalidLevel # fst (compress_pdf env input_pdf output_pdf 3),
         snd (compress_pdf env input_pdf output_pdf 3)))
   \<and> snd (compress_pdf env input_pdf output_pdf level) = None
   \<and> map (\<lambda>l. expected_command l input_pdf output_pdf ! (if l = 5 then 10 else 3)) [1, 2, 3, 4, 5] =
       [''-dPDFSETTINGS=/prepress'', ''-dPDFSETTINGS=/printer'', ''-dPDFSETTINGS=/ebook'',
        ''-dPDFSETTINGS=/screen'', ''-dPDFSETTINGS=/ebook'']
   \<and> expected_command 5 input_pdf output_pdf =
       take 3 (expected_command 3 input_pdf output_pdf)
       @ [''-dDetectDuplicateImages=true'', ''-dColorImageResolution=150'',
          ''-dGrayImageResolution=150'', ''-dMonoImageResolution=150'',
          ''-dDownsampleColorImages=true'', ''-dDownsampleGrayImages=true'',
          ''-dDownsampleMonoImages=true'']
       @ drop 3 (expected_command 3 input_pdf output_pdf)"
proof (intro conjI impI)
  assume a: "1 \<le> level \<and> level \<le> 5 \<and> path_exists env input_pdf
      \<and> gs env (expected_command level input_pdf output_pdf) = Inr after"
  then obtain q where q: "quality_map level = Some q"
    using quality_map_dom[of level] by (cases "quality_map level") auto
  have c: "command_line level q input_pdf output_pdf = expected_command level input_pdf output_pdf"
    using command_line_expected a q by simp
  show "take 2 (fst (compress_pdf env input_pdf output_pdf level)) =
      [Print Compressing, Spawn (expected_command level input_pdf output_pdf)]"
    using a
    by (auto simp: compress_pdf_def q compress_body_def c compress_handlers_def Let_def
        split: option.splits prod.splits)
next
  assume "\<not> (1 \<le> level \<and> level \<le> 5)"
  then have n: "quality_map level = None" by (simp add: quality_map_dom)
  have t: "quality_map 3 \<noteq> None" by (simp add: quality_map_def)
  show "compress_pdf env input_pdf output_pdf level =
      (Print InvalidLevel # fst (compress_pdf env input_pdf output_pdf 3),
       snd (compress_pdf env input_pdf output_pdf 3))"
    using t by (auto simp: compress_pdf_def n Let_def split: option.splits prod.splits)
next
  show "snd (compress_pdf env input_pdf output_pdf level) = None"
    by (rule compress_pdf_returns)
qed (simp_all add: expected_command_def preset_def)

theorem compress_level_selects_preset_witness:
  "take 2 (fst (compress_pdf sample_env ''a.pdf'' ''small.pdf'' 5)) =
     [Print Compressing,
      Spawn [''gs'', ''-sDEVICE=pdfwrite'', ''-dCompatibilityLevel=1.5'',
             ''-dDetectDuplicateImages=true'', ''-dColorImageResolution=150'',
             ''-dGrayImageResolution=150'', ''-dMonoImageResolution=150'',
             ''-dDownsampleColorImages=true'', ''-dDownsampleGrayImages=true'',
             ''-dDownsampleMonoImages=true'', ''-dPDFSETTINGS=/ebook'',
             ''-dNOPAUSE'', ''-dQUIET'', ''-dBATCH'', ''-dAutoRotatePages=/None'',
             ''-sOutputFile=small.pdf'', ''a.pdf'']]
   \<and> compress_pdf sample_env ''a.pdf'' ''small.pdf'' 0 =
     ([Print InvalidLevel, Print Compressing,
       Spawn [''gs'', ''-sDEVICE=pdfwrite'', ''-dCompatibilityLevel=1.5'',
              ''-dPDFSETTINGS=/ebook'', ''-dNOPAUSE'', ''-dQUIET'', ''-dBATCH'',
              ''-dAutoRotatePages=/None'', ''-sOutputFile=small.pdf'', ''a.pdf''],
       Print (CompressSuccess 2048 1024)], None)"
proof -
  have a: "1 \<le> (5 :: int) \<and> (5 :: int) \<le> 5 \<and> path_exists sample_env ''a.pdf''
      \<and> gs sample_env (expected_command 5 ''a.pdf'' ''small.pdf'')
          = Inr [''a.pdf'' \<mapsto> 2048, ''small.pdf'' \<mapsto> 1024]"
    by (simp add: sample_env_def path_exists_def)
  have b: "\<not> (1 \<le> (0 :: int) \<and> (0 :: int) \<le> 5)" by simp
  have three: "compress_pdf sample_env ''a.pdf'' ''small.pdf'' 3 =
     ([Print Compressing,
       Spawn [''gs'', ''-sDEVICE=pdfwrite'', ''-dCompatibilityLevel=1.5'',
              ''-dPDFSETTINGS=/ebook'', ''-dNOPAUSE'', ''-dQUIET'', ''-dBATCH'',
              ''-dAutoRotatePages=/None'', ''-sOutputFile=small.pdf'', ''a.pdf''],
       Print (CompressSuccess 2048 1024)], None)"
    by (simp add: compress_pdf_def quality_map_def compress_body_def compress_handlers_def
        command_line_def gs_cmd_def sample_env_def path_exists_def)
  from compress_level_selects_preset[of 5 sample_env "''a.pdf''" "''small.pdf''",
      THEN conjunct1, THEN mp, OF a]
    compress_level_selects_preset[of 0 sample_env "''a.pdf''" "''small.pdf''",
      THEN conjunct2, THEN conjunct1, THEN mp, OF b]
  show ?thesis by (simp add: three expected_command_def preset_def)
qed

subsection \<open>Failures stay inside the operations\<close>















subsection \<open>Parsing and the decoding of tokens\<close>

lemma long_digits_error: "long_digits prev acc s = Inl e \<Longrightarrow> e = ValueError"
  by (induction prev acc s rule: long_digits.induct) (auto split: if_splits)

lemma unsigned_int_error: "unsigned_int s = Inl e \<Longrightarrow> e = ValueError"
  by (auto simp: unsigned_int_def split: list.splits if_splits dest: long_digits_error)

lemma py_int_error: "py_int s = Inl e \<Longrightarrow> e = ValueError"
proof -
  have m: "map_sum id uminus (unsigned_int x) = Inl e' \<Longrightarrow> e' = ValueError" for x e'
    using unsigned_int_error[of x] by (cases "unsigned_int x") auto
  assume "py_int s = Inl e"
  then show ?thesis
    by (auto simp: py_int_def split: list.splits if_splits dest: unsigned_int_error m)
qed

lemma start_end_error: "start_end t = Inl e \<Longrightarrow> e = ValueError"
  by (auto simp: start_end_def split: list.splits sum.splits dest: py_int_error)

lemma start_end_two_parts: "two_integer_parts t \<longleftrightarrow> (\<exists>r. start_end t = Inr r)"
  by (auto simp: two_integer_parts_def start_end_def split: list.splits sum.splits)

lemma start_end_malformed: "\<not> two_integer_parts t \<Longrightarrow> start_end t = Inl ValueError"
  using start_end_two_parts[of t] start_end_error[of t]
  by (cases "start_end t") auto

lemma range_total_malformed:
  "\<exists>t \<in> set toks. \<not> two_integer_parts t \<Longrightarrow> range_total toks = Inl ValueError"
proof (induction toks)
  case Nil
  then show ?case by simp
next
  case (Cons t toks)
  show ?case
  proof (cases "two_integer_parts t")
    case True
    then obtain r where "start_end t = Inr r" using start_end_two_parts by blast
    moreover have "range_total toks = Inl ValueError" using Cons True by auto
    ultimately show ?thesis by (cases r) simp
  next
    case False
    then show ?thesis by (simp add: start_end_malformed)
  qed
qed

lemma exclude_ranges_malformed:
  "\<exists>t \<in> set toks. \<not> two_integer_parts t \<Longrightarrow> exclude_ranges toks X = Inl ValueError"
proof (induction toks arbitrary: X)
  case Nil
  then show ?case by simp
next
  case (Cons t toks)
  show ?case
  proof (cases "two_integer_parts t")
    case True
    then obtain r where "start_end t = Inr r" using start_end_two_parts by blast
    moreover have "exclude_ranges toks Y = Inl ValueError" for Y using Cons True by auto
    ultimately show ?thesis by (cases r) simp
  next
    case False
    then show ?thesis by (simp add: start_end_malformed)
  qed
qed

lemma decoded_well_formed:
  "\<forall>t \<in> set toks. two_integer_parts t \<Longrightarrow> \<exists>rs. map start_end toks = map Inr rs"
proof (induction toks)
  case Nil
  then show ?case by simp
next
  case (Cons t toks)
  then obtain r rs where "start_end t = Inr r" and "map start_end toks = map Inr rs"
    using start_end_two_parts by auto
  then have "map start_end (t # toks) = map Inr (r # rs)" by simp
  then show ?case by blast
qed

lemma length_split_on: "length (split_on sep s) = Suc (count_list s sep)"
  by (induction s) (auto split: list.splits)

lemma split_on_nonempty: "split_on sep s \<noteq> []"
  by (induction s) (auto split: list.splits)

lemma join_commas_split_on: "join_commas (split_on (CHR '','') s) = s"
proof (induction s)
  case Nil
  show ?case by simp
next
  case (Cons c cs)
  obtain p ps where sp: "split_on (CHR '','') cs = p # ps"
    using split_on_nonempty[of "CHR '',''" cs] by (cases "split_on (CHR '','') cs") auto
  show ?case
  proof (cases "c = CHR '',''")
    case True
    with Cons sp show ?thesis by simp
  next
    case False
    with Cons sp show ?thesis by (cases ps) simp_all
  qed
qed

lemma split_on_no_sep: "\<forall>p \<in> set (split_on sep s). sep \<notin> set p"
  by (induction s) (auto split: list.splits)

lemma strip_stripped_from: "stripped_from (strip p) p"
proof -
  let ?d = "dropWhile is_space p"
  let ?l = "takeWhile is_space p"
  let ?r = "rev (takeWhile is_space (rev ?d))"
  let ?t = "rev (dropWhile is_space (rev ?d))"
  have t: "strip p = ?t" by (simp add: strip_def)
  have "rev ?d = takeWhile is_space (rev ?d) @ dropWhile is_space (rev ?d)" by simp
  then have "rev (rev ?d) = rev (takeWhile is_space (rev ?d) @ dropWhile is_space (rev ?d))"
    by (rule arg_cong)
  then have d: "?d = ?t @ ?r" by (simp only: rev_rev_ident rev_append)
  have p: "p = ?l @ ?t @ ?r" using d by (metis takeWhile_dropWhile_id)
  have l: "list_all is_space ?l" by (simp add: list_all_iff) (metis set_takeWhileD)
  have r: "list_all is_space ?r" by (simp add: list_all_iff) (metis set_takeWhileD)
  have e: "\<not> is_space (hd ?t) \<and> \<not> is_space (last ?t)" if ne: "?t \<noteq> []"
  proof
    have "?d \<noteq> []" using d ne by (metis append_is_Nil_conv)
    then have "\<not> is_space (hd ?d)" by (rule hd_dropWhile)
    moreover have "hd ?d = hd ?t" using d ne by (metis hd_append2)
    ultimately show "\<not> is_space (hd ?t)" by simp
    have "dropWhile is_space (rev ?d) \<noteq> []" using ne by simp
    then have "\<not> is_space (hd (dropWhile is_space (rev ?d)))" by (rule hd_dropWhile)
    then show "\<not> is_space (last ?t)" using ne by (simp add: last_rev)
  qed
  show ?thesis
    unfolding stripped_from_def t
    using p l r e by blast
qed

lemma parse_page_ranges_pieces:
  "s = join_commas (split_on (CHR '','') s)
   \<and> (\<forall>p \<in> set (split_on (CHR '','') s). CHR '','' \<notin> set p)
   \<and> list_all2 stripped_from (parse_page_ranges s) (split_on (CHR '','') s)"
  by (simp add: join_commas_split_on split_on_no_sep parse_page_ranges_def list_all2_map1
      list_all2_same strip_stripped_from)

lemma long_digits_nonneg: "0 \<le> acc \<Longrightarrow> long_digits prev acc s = Inr v \<Longrightarrow> 0 \<le> v"
proof (induction prev acc s rule: long_digits.induct)
  case (1 prev acc)
  then show ?case by (simp split: if_splits)
next
  case (2 prev acc c cs)
  show ?case
  proof (cases "c = CHR ''_''")
    case True
    with 2 show ?thesis by (simp split: if_splits)
  next
    case False
    with "2.prems" have d: "is_digit c" by (simp split: if_splits)
    then have "0 \<le> digit_value c" by (simp add: is_digit_def digit_value_def Let_def)
    with "2.prems" have "0 \<le> 10 * acc + digit_value c" by simp
    with 2 False d show ?thesis by simp
  qed
qed

lemma unsigned_int_nonneg: "unsigned_int s = Inr v \<Longrightarrow> 0 \<le> v"
proof -
  assume "unsigned_int s = Inr v"
  then have "long_digits (CHR 0x00) 0 s = Inr v"
    by (simp add: unsigned_int_def del: long_digits.simps split: list.splits if_splits)
  then show ?thesis using long_digits_nonneg[of 0] by blast
qed

lemma py_int_nonneg:
  assumes "CHR ''-'' \<notin> set s" and "py_int s = Inr v"
  shows "0 \<le> v"
proof -
  let ?t = "rev (dropWhile int_space (rev (dropWhile int_space s)))"
  have sub: "set ?t \<subseteq> set s"
    by (auto dest!: set_dropWhileD)
  show ?thesis
  proof (cases ?t)
    case Nil
    with assms(2) show ?thesis by (simp add: py_int_def)
  next
    case (Cons c cs)
    then have "c \<in> set s" using sub by (metis list.set_intros(1) subsetD)
    then have "c \<noteq> CHR ''-''" using assms(1) by auto
    with assms(2) Cons show ?thesis
      by (auto simp: py_int_def split: if_splits dest: unsigned_int_nonneg)
  qed
qed

lemma start_end_nonneg: "start_end t = Inr (s, e) \<Longrightarrow> 0 \<le> s \<and> 0 \<le> e"
proof -
  assume d: "start_end t = Inr (s, e)"
  then obtain a b where ab: "split_on (CHR ''-'') t = [a, b]"
    and a: "py_int a = Inr s" and b: "py_int b = Inr e"
    by (auto simp: start_end_def split: list.splits sum.splits)
  have "CHR ''-'' \<notin> set a" "CHR ''-'' \<notin> set b"
    using split_on_no_sep[of "CHR ''-''" t] ab by auto
  then show ?thesis using a b py_int_nonneg by blast
qed

lemma extract_range_no_error:
  "pages \<noteq> [] \<Longrightarrow> \<forall>n \<in> set ns. - 1 \<le> n \<Longrightarrow>
     \<exists>evs copied. extract_range pages ns writer = (evs, Inr copied)"
proof (induction ns arbitrary: writer)
  case Nil
  show ?case by simp
next
  case (Cons n ns)
  show ?case
  proof (cases "n < int (length pages)")
    case True
    have len: "0 < length pages" and n: "- 1 \<le> n" using Cons.prems by simp_all
    have "\<exists>page. getitem pages n = Inr page"
    proof (cases "n < 0")
      case True
      with n have "n = - 1" by simp
      with len show ?thesis by (simp add: getitem_def Let_def)
    next
      case False
      with \<open>n < int (length pages)\<close> show ?thesis by (simp add: getitem_def Let_def)
    qed
    then obtain page where "getitem pages n = Inr page" by blast
    with True Cons show ?thesis by simp
  next
    case False
    obtain evs copied where "extract_range pages ns writer = (evs, Inr copied)"
      using Cons by fastforce
    with False show ?thesis by simp
  qed
qed

lemma extract_ranges_no_error:
  "pages \<noteq> [] \<Longrightarrow> \<forall>t \<in> set toks. two_integer_parts t \<Longrightarrow>
     \<exists>evs copied. extract_ranges pages toks writer = (evs, Inr copied)"
proof (induction toks arbitrary: writer)
  case Nil
  show ?case by simp
next
  case (Cons t toks)
  then obtain r where "start_end t = Inr r" using start_end_two_parts by auto
  then obtain s e where d: "start_end t = Inr (s, e)" by (cases r) auto
  then have "0 \<le> s" using start_end_nonneg by blast
  then have "\<forall>n \<in> set (py_range (s - 1) e). - 1 \<le> n" by (auto simp: py_range_def)
  from extract_range_no_error[OF Cons.prems(1) this]
  obtain evs copied where one: "extract_range pages (py_range (s - 1) e) writer = (evs, Inr copied)"
    by blast
  obtain evs' copied' where "extract_ranges pages toks copied = (evs', Inr copied')"
    using Cons by fastforce
  with d one show ?case by simp
qed

lemma extract_pages_well_formed:
  assumes "PdfReader env input_pdf = Inr pages" and "open_wb env output_pdf = None"
    and "\<forall>t \<in> set toks. two_integer_parts t" and "pages \<noteq> []"
  shows "\<exists>evs copied. extract_pages env input_pdf output_pdf toks =
     (evs @ [Write output_pdf copied, Print (ExtractSuccess output_pdf)], None)"
proof -
  obtain rs where "map start_end toks = map Inr rs"
    using decoded_well_formed[OF assms(3)] by blast
  then obtain n where n: "range_total toks = Inr n" using range_total_decoded by blast
  obtain evs copied where x: "extract_ranges pages toks [] = (evs, Inr copied)"
    using extract_ranges_no_error[OF assms(4) assms(3)] by blast
  show ?thesis
    by (simp add: extract_pages_def extract_body_def except_Exception_def assms(1) n x
        write_pdf_def assms(2))
qed

lemma delete_pages_well_formed:
  assumes "PdfReader env input_pdf = Inr pages" and "open_wb env output_pdf = None"
    and "\<forall>t \<in> set toks. two_integer_parts t"
  shows "\<exists>kept. delete_pages env input_pdf output_pdf toks =
     ([Write output_pdf kept, Print (DeleteSuccess output_pdf)], None)"
proof -
  obtain rs where "map start_end toks = map Inr rs"
    using decoded_well_formed[OF assms(3)] by blast
  from delete_pages_decoded[OF assms(1) this assms(2)] show ?thesis by blast
qed

text \<open>
  C1, as the code has it: parse itself never fails. For every input string it returns the
  comma-separated pieces of the string, each stripped of surrounding whitespace and
  otherwise unchecked. A token that cannot be split into exactly two integer parts is
  refused only when extract or delete decode it: with a readable source they then write
  nothing and report a \<open>ValueError\<close>. When every token can be so split, a readable source
  and a writable output make delete succeed, and extract too on a document that has a
  page.
\<close>

theorem parse_page_ranges_defers_validation:
  "(\<exists>pieces. pieces \<noteq> [] \<and> s = join_commas pieces
        \<and> (\<forall>p \<in> set pieces. CHR '','' \<notin> set p)
        \<and> list_all2 stripped_from (parse_page_ranges s) pieces)
   \<and> (PdfReader env input_pdf = Inr pages
        \<and> (\<exists>t \<in> set (parse_page_ranges s). \<not> two_integer_parts t) \<longrightarrow>
        extract_pages env input_pdf output_pdf (parse_page_ranges s) =
          ([Print (Error ValueError)], None)
      \<and> delete_pages env input_pdf output_pdf (parse_page_ranges s) =
          ([Print (Error ValueError)], None))
   \<and> (PdfReader env input_pdf = Inr pages \<and> open_wb env output_pdf = None
        \<and> (\<forall>t \<in> set (parse_page_ranges s). two_integer_parts t) \<longrightarrow>
        (\<exists>kept. delete_pages env input_pdf output_pdf (parse_page_ranges s) =
           ([Write output_pdf kept, Print (DeleteSuccess output_pdf)], None))
      \<and> (pages \<noteq> [] \<longrightarrow>
           (\<exists>evs copied. extract_pages env input_pdf output_pdf (parse_page_ranges s) =
              (evs @ [Write output_pdf copied, Print (ExtractSuccess output_pdf)], None))))"
proof (intro conjI impI)
  show "\<exists>pieces. pieces \<noteq> [] \<and> s = join_commas pieces
      \<and> (\<forall>p \<in> set pieces. CHR '','' \<notin> set p)
      \<and> list_all2 stripped_from (parse_page_ranges s) pieces"
    using parse_page_ranges_pieces[of s] split_on_nonempty[of "CHR '',''" s] by blast
next
  assume a: "PdfReader env input_pdf = Inr pages
      \<and> (\<exists>t \<in> set (parse_page_ranges s). \<not> two_integer_parts t)"
  then have bad: "\<exists>t \<in> set (parse_page_ranges s). \<not> two_integer_parts t" by simp
  show "extract_pages env input_pdf output_pdf (parse_page_ranges s) =
      ([Print (Error ValueError)], None)"
    using a by (simp add: extract_pages_def extract_body_def except_Exception_def
        range_total_malformed[OF bad])
  show "delete_pages env input_pdf output_pdf (parse_page_ranges s) =
      ([Print (Error ValueError)], None)"
    using a by (simp add: delete_pages_def delete_body_def except_Exception_def
        exclude_ranges_malformed[OF bad])
next
  assume a: "PdfReader env input_pdf = Inr pages \<and> open_wb env output_pdf = None
      \<and> (\<forall>t \<in> set (parse_page_ranges s). two_integer_parts t)"
  then have r: "PdfReader env input_pdf = Inr pages" and w: "open_wb env output_pdf = None"
    and g: "\<forall>t \<in> set (parse_page_ranges s). two_integer_parts t" by simp_all
  show "\<exists>kept. delete_pages env input_pdf output_pdf (parse_page_ranges s) =
      ([Write output_pdf kept, Print (DeleteSuccess output_pdf)], None)"
    by (rule delete_pages_well_formed[OF r w g])
  assume "pages \<noteq> []"
  then show "\<exists>evs copied. extract_pages env input_pdf output_pdf (parse_page_ranges s) =
      (evs @ [Write output_pdf copied, Print (ExtractSuccess output_pdf)], None)"
    by (rule extract_pages_well_formed[OF r w g])
qed

theorem parse_page_ranges_defers_validation_witness:
  "extract_pages sample_env ''a.pdf'' ''out.pdf'' (parse_page_ranges ''1-2, abc'') =
     ([Print (Error ValueError)], None)
   \<and> delete_pages sample_env ''a.pdf'' ''out.pdf'' (parse_page_ranges ''1-2, abc'') =
     ([Print (Error ValueError)], None)
   \<and> (\<exists>kept. delete_pages sample_env ''a.pdf'' ''out.pdf'' (parse_page_ranges ''1-2, 3 - 3'') =
        ([Write ''out.pdf'' kept, Print (DeleteSuccess ''out.pdf'')], None))
   \<and> (\<exists>evs copied.
        extract_pages sample_env ''a.pdf'' ''out.pdf'' (parse_page_ranges ''1-2, 3 - 3'') =
        (evs @ [Write ''out.pdf'' copied, Print (ExtractSuccess ''out.pdf'')], None))"
proof -
  have p: "parse_page_ranges ''1-2, abc'' = [''1-2'', ''abc'']"
    "parse_page_ranges ''1-2, 3 - 3'' = [''1-2'', ''3 - 3'']"
    by (simp_all add: parse_page_ranges_def strip_def is_space_def)
  have a: "PdfReader sample_env ''a.pdf'' = Inr [1, 2, 3]
      \<and> (\<exists>t \<in> set (parse_page_ranges ''1-2, abc''). \<not> two_integer_parts t)"
    unfolding p by (simp add: PdfReader_def sample_env_def two_integer_parts_def)
  have g: "PdfReader sample_env ''a.pdf'' = Inr [1, 2, 3]
      \<and> open_wb sample_env ''out.pdf'' = None
      \<and> (\<forall>t \<in> set (parse_page_ranges ''1-2, 3 - 3''). two_integer_parts t)"
    unfolding p
    by (simp add: PdfReader_def sample_env_def two_integer_parts_def py_int_def
        unsigned_int_def int_space_def is_digit_def digit_value_def)
  have ne: "[1, 2, 3 :: nat] \<noteq> []" by simp
  note bad = parse_page_ranges_defers_validation[of "''1-2, abc''" sample_env "''a.pdf''"
      "[1, 2, 3]" "''out.pdf''", THEN conjunct2, THEN conjunct1, THEN mp, OF a]
  note good = parse_page_ranges_defers_validation[of "''1-2, 3 - 3''" sample_env "''a.pdf''"
      "[1, 2, 3]" "''out.pdf''", THEN conjunct2, THEN conjunct2, THEN mp, OF g]
  from bad good[THEN conjunct1] good[THEN conjunct2, THEN mp, OF ne]
  show ?thesis by blast
qed

text \<open>
  The specification's sentence fails as stated: "abc" cannot be split into two integer
  parts, and parse
  returns it as a token.
\<close>

theorem parse_page_ranges_accepts_malformed_token:
  "\<not> two_integer_parts ''abc'' \<and> parse_page_ranges ''abc'' = [''abc'']"
  by (simp add: two_integer_parts_def parse_page_ranges_def strip_def is_space_def)

end
